theory Spec2Isabelle
  imports Complex_Main "HOL-Library.Monad_Syntax"
begin

section \<open>JavaScript numbers\<close>

text \<open>
  The program computes with JavaScript numbers. A number is modelled as a real, or one of
  the three non-finite values. Arithmetic on finite values is exact (no rounding, no
  overflow); the non-finite cases follow IEEE 754 with a single, unsigned zero: a nonzero
  value divided by zero is an infinity of the dividend's sign, \<open>0 / 0\<close>,
  \<open>Infinity - Infinity\<close> and \<open>0 * Infinity\<close> are \<open>NaN\<close>, and every comparison
  with \<open>NaN\<close> is false.
\<close>

datatype jsnum = Fin real | PInf | NInf | NaN

fun isFinite :: "jsnum \<Rightarrow> bool" where
  "isFinite (Fin a) = True"
| "isFinite PInf = False"
| "isFinite NInf = False"
| "isFinite NaN = False"

instantiation jsnum :: "{plus, minus, uminus, times, inverse, abs, ord}"
begin

fun uminus_jsnum :: "jsnum \<Rightarrow> jsnum" where
  "uminus_jsnum (Fin a) = Fin (- a)"
| "uminus_jsnum PInf = NInf"
| "uminus_jsnum NInf = PInf"
| "uminus_jsnum NaN = NaN"

fun plus_jsnum :: "jsnum \<Rightarrow> jsnum \<Rightarrow> jsnum" where
  "plus_jsnum (Fin a) (Fin b) = Fin (a + b)"
| "plus_jsnum NaN y = NaN"
| "plus_jsnum x NaN = NaN"
| "plus_jsnum PInf NInf = NaN"
| "plus_jsnum NInf PInf = NaN"
| "plus_jsnum PInf y = PInf"
| "plus_jsnum NInf y = NInf"
| "plus_jsnum (Fin a) y = y"

definition minus_jsnum :: "jsnum \<Rightarrow> jsnum \<Rightarrow> jsnum" where
  "minus_jsnum x y = x + (- y)"

fun times_jsnum :: "jsnum \<Rightarrow> jsnum \<Rightarrow> jsnum" where
  "times_jsnum (Fin a) (Fin b) = Fin (a * b)"
| "times_jsnum NaN y = NaN"
| "times_jsnum x NaN = NaN"
| "times_jsnum (Fin a) PInf = (if a = 0 then NaN else if 0 < a then PInf else NInf)"
| "times_jsnum (Fin a) NInf = (if a = 0 then NaN else if 0 < a then NInf else PInf)"
| "times_jsnum PInf (Fin b) = (if b = 0 then NaN else if 0 < b then PInf else NInf)"
| "times_jsnum NInf (Fin b) = (if b = 0 then NaN else if 0 < b then NInf else PInf)"
| "times_jsnum PInf PInf = PInf"
| "times_jsnum PInf NInf = NInf"
| "times_jsnum NInf PInf = NInf"
| "times_jsnum NInf NInf = PInf"

fun divide_jsnum :: "jsnum \<Rightarrow> jsnum \<Rightarrow> jsnum" where
  "divide_jsnum (Fin a) (Fin b) =
     (if b \<noteq> 0 then Fin (a / b)
      else if a = 0 then NaN else if 0 < a then PInf else NInf)"
| "divide_jsnum NaN y = NaN"
| "divide_jsnum x NaN = NaN"
| "divide_jsnum (Fin a) PInf = Fin 0"
| "divide_jsnum (Fin a) NInf = Fin 0"
| "divide_jsnum PInf (Fin b) = (if 0 \<le> b then PInf else NInf)"
| "divide_jsnum NInf (Fin b) = (if 0 \<le> b then NInf else PInf)"
| "divide_jsnum PInf y = NaN"
| "divide_jsnum NInf y = NaN"

fun inverse_jsnum :: "jsnum \<Rightarrow> jsnum" where
  "inverse_jsnum (Fin a) = (if a \<noteq> 0 then Fin (1 / a) else PInf)"
| "inverse_jsnum PInf = Fin 0"
| "inverse_jsnum NInf = Fin 0"
| "inverse_jsnum NaN = NaN"

fun abs_jsnum :: "jsnum \<Rightarrow> jsnum" where
  "abs_jsnum (Fin a) = Fin \<bar>a\<bar>"
| "abs_jsnum PInf = PInf"
| "abs_jsnum NInf = PInf"
| "abs_jsnum NaN = NaN"

fun less_jsnum :: "jsnum \<Rightarrow> jsnum \<Rightarrow> bool" where
  "less_jsnum (Fin a) (Fin b) = (a < b)"
| "less_jsnum NaN y = False"
| "less_jsnum x NaN = False"
| "less_jsnum x NInf = False"
| "less_jsnum PInf y = False"
| "less_jsnum NInf y = True"
| "less_jsnum (Fin a) PInf = True"

definition less_eq_jsnum :: "jsnum \<Rightarrow> jsnum \<Rightarrow> bool" where
  "less_eq_jsnum x y = (x < y \<or> (x \<noteq> NaN \<and> x = y))"

instance ..

end

text \<open>\<open>Math.log10\<close>, \<open>10 ** x\<close>, \<open>Math.max\<close>, \<open>Math.sign\<close> and \<open>===\<close> on numbers.\<close>

fun log10 :: "jsnum \<Rightarrow> jsnum" where
  "log10 (Fin a) = (if 0 < a then Fin (log 10 a) else if a = 0 then NInf else NaN)"
| "log10 PInf = PInf"
| "log10 NInf = NaN"
| "log10 NaN = NaN"

fun pow10 :: "jsnum \<Rightarrow> jsnum" where
  "pow10 (Fin a) = Fin (10 powr a)"
| "pow10 PInf = PInf"
| "pow10 NInf = Fin 0"
| "pow10 NaN = NaN"

fun js_max :: "jsnum \<Rightarrow> jsnum \<Rightarrow> jsnum" where
  "js_max NaN y = NaN"
| "js_max x NaN = NaN"
| "js_max x y = (if x < y then y else x)"

fun js_sign :: "jsnum \<Rightarrow> jsnum" where
  "js_sign (Fin a) = Fin (sgn a)"
| "js_sign PInf = Fin 1"
| "js_sign NInf = Fin (- 1)"
| "js_sign NaN = NaN"

definition strictEq :: "jsnum \<Rightarrow> jsnum \<Rightarrow> bool" where
  "strictEq x y = (x \<noteq> NaN \<and> y \<noteq> NaN \<and> x = y)"

section \<open>Constants\<close>

definition MAXITERATIONS :: nat where
  "MAXITERATIONS = 100"

definition TOL :: jsnum where
  "TOL = Fin 0.001"

record antConsts =
  A :: jsnum
  B :: jsnum
  C :: jsnum
  mol_wt :: jsnum
  hVap :: jsnum

definition propaneConstants :: antConsts where
  "propaneConstants =
     \<lparr> A = Fin 4.53678, B = Fin 1149.36, C = Fin 24.906,
       mol_wt = Fin 44.097, hVap = Fin 6986.24159 \<rparr>"

definition butaneConstants :: antConsts where
  "butaneConstants =
     \<lparr> A = Fin 4.35576, B = Fin 1175.581, C = Fin (- 2.071),
       mol_wt = Fin 58.12, hVap = Fin 9630.26533 \<rparr>"

section \<open>Vapor-liquid equilibrium\<close>

definition boilingPointTemperature :: "jsnum \<Rightarrow> antConsts \<Rightarrow> jsnum" where
  "boilingPointTemperature pressure antConsts =
     (let pbar = pressure / Fin 14.503773773;
          logP = log10 pbar;
          tempK = B antConsts / (A antConsts - logP) - C antConsts
      in (tempK - Fin 273.15) * Fin 9 / Fin 5 + Fin 32)"

definition vaporPressure :: "jsnum \<Rightarrow> antConsts \<Rightarrow> jsnum" where
  "vaporPressure temperature antConsts =
     (let tempK = (temperature - Fin 32) * Fin 5 / Fin 9 + Fin 273.15;
          logP = A antConsts - (B antConsts / (tempK + C antConsts));
          Pbar = pow10 logP
      in Pbar * Fin 14.503773773)"

definition binaryequilibriumEquationFromX ::
  "jsnum \<Rightarrow> jsnum \<Rightarrow> jsnum \<Rightarrow> antConsts \<Rightarrow> antConsts \<Rightarrow> jsnum" where
  "binaryequilibriumEquationFromX temperature pressure liqMolFrac lightAntConsts heavyAntConsts =
     (let param1 = liqMolFrac * vaporPressure temperature lightAntConsts;
          param2 = (Fin 1 - liqMolFrac) * vaporPressure temperature heavyAntConsts
      in pressure - (param1 + param2))"

definition binaryequilibriumEquationFromY ::
  "jsnum \<Rightarrow> jsnum \<Rightarrow> jsnum \<Rightarrow> antConsts \<Rightarrow> antConsts \<Rightarrow> jsnum" where
  "binaryequilibriumEquationFromY temperature pressure vaporMolFrac lightAntConsts heavyAntConsts =
     (let param1 = vaporMolFrac * pressure / vaporPressure temperature lightAntConsts;
          param2 = (Fin 1 - vaporMolFrac) * pressure / vaporPressure temperature heavyAntConsts
      in param1 + param2 - Fin 1)"

text \<open>
  Both equilibrium solves run the same bisection loop, which has no iteration cap; it is
  written once, over the residual. \<open>None\<close> is the loop that never exits.
\<close>

partial_function (option) bisectionLoop ::
  "(jsnum \<Rightarrow> jsnum) \<Rightarrow> jsnum \<Rightarrow> jsnum \<Rightarrow> jsnum \<Rightarrow> jsnum option" where
  "bisectionLoop residual maxT minT tempGuess =
     (let result = residual tempGuess
      in if TOL < \<bar>result\<bar> then
           (if Fin 0 < result
            then bisectionLoop residual tempGuess minT ((minT + tempGuess) / Fin 2)
            else bisectionLoop residual maxT tempGuess ((maxT + tempGuess) / Fin 2))
         else Some tempGuess)"

definition equilibriumTemperatureFromX ::
  "jsnum \<Rightarrow> jsnum \<Rightarrow> antConsts \<Rightarrow> antConsts \<Rightarrow> jsnum option" where
  "equilibriumTemperatureFromX pressure liquidMolFrac lightAntConsts heavyAntConsts =
     (let maxT = boilingPointTemperature pressure lightAntConsts;
          minT = boilingPointTemperature pressure heavyAntConsts;
          tempGuess = (maxT + minT) / Fin 2
      in bisectionLoop
           (\<lambda>t. binaryequilibriumEquationFromX t pressure liquidMolFrac lightAntConsts heavyAntConsts)
           maxT minT tempGuess)"

definition equilibriumTemperatureFromY ::
  "jsnum \<Rightarrow> jsnum \<Rightarrow> antConsts \<Rightarrow> antConsts \<Rightarrow> jsnum option" where
  "equilibriumTemperatureFromY pressure vaporMolFrac lightAntConsts heavyAntConsts =
     (let maxT = boilingPointTemperature pressure lightAntConsts;
          minT = boilingPointTemperature pressure heavyAntConsts;
          tempGuess = (maxT + minT) / Fin 2
      in bisectionLoop
           (\<lambda>t. binaryequilibriumEquationFromY t pressure vaporMolFrac lightAntConsts heavyAntConsts)
           maxT minT tempGuess)"

definition liqMolFraction ::
  "jsnum \<Rightarrow> jsnum \<Rightarrow> antConsts \<Rightarrow> antConsts \<Rightarrow> jsnum option" where
  "liqMolFraction pressure vaporMolFrac lightAntConsts heavyAntConsts =
     do { temperature \<leftarrow> equilibriumTemperatureFromY pressure vaporMolFrac lightAntConsts heavyAntConsts;
          Some (vaporMolFrac * pressure / vaporPressure temperature lightAntConsts) }"

definition vapMolFraction ::
  "jsnum \<Rightarrow> jsnum \<Rightarrow> antConsts \<Rightarrow> antConsts \<Rightarrow> jsnum option" where
  "vapMolFraction pressure liquidMolFrac lightAntConsts heavyAntConsts =
     do { temperature \<leftarrow> equilibriumTemperatureFromX pressure liquidMolFrac lightAntConsts heavyAntConsts;
          Some (liquidMolFrac * vaporPressure temperature lightAntConsts / pressure) }"

section \<open>Material balance\<close>

definition productRates :: "jsnum \<Rightarrow> jsnum \<Rightarrow> jsnum \<Rightarrow> jsnum \<Rightarrow> jsnum \<times> jsnum" where
  "productRates feedRate feedXp distillateXp bottomsXp =
     (let distillateRate = feedRate * (feedXp - bottomsXp) / (distillateXp - bottomsXp);
          bottomsRate = feedRate - distillateRate
      in (distillateRate, bottomsRate))"

definition boilUpRatio :: "jsnum \<Rightarrow> jsnum \<Rightarrow> jsnum \<Rightarrow> jsnum" where
  "boilUpRatio refluxRatio distillateRate bottomsRate =
     (refluxRatio + Fin 1) * distillateRate / bottomsRate"

definition rectifyingOperatingLine :: "jsnum \<Rightarrow> jsnum \<Rightarrow> jsnum \<Rightarrow> jsnum" where
  "rectifyingOperatingLine refluxRatio distillateMolFrac liquidMolFrac =
     refluxRatio / (refluxRatio + Fin 1) * liquidMolFrac + distillateMolFrac / (refluxRatio + Fin 1)"

definition strippingOperatingLine :: "jsnum \<Rightarrow> jsnum \<Rightarrow> jsnum \<Rightarrow> jsnum" where
  "strippingOperatingLine boilUp bottomsMolFrac vaporMolFraction =
     (vaporMolFraction + bottomsMolFrac / boilUp) * boilUp / (boilUp + Fin 1)"

section \<open>Column stepping\<close>

text \<open>
  Tray indices and tray counts are integers. The loop of \<open>rectifyingSection\<close> runs \<open>i\<close>
  from 2 up to \<open>feedTray\<close>, the loop of \<open>strippingSection\<close> runs \<open>i\<close> from \<open>totalTrays\<close>
  down to \<open>feedTray\<close>.
\<close>

function rectifyingLoop ::
  "int \<Rightarrow> jsnum \<Rightarrow> jsnum \<Rightarrow> jsnum \<Rightarrow> int \<Rightarrow> antConsts \<Rightarrow> antConsts \<Rightarrow> jsnum \<Rightarrow> jsnum option" where
  "rectifyingLoop i refluxRatio pressure distillateMolFrac feedTray lightAntConsts heavyAntConsts liqMolFrac =
     (if i \<le> feedTray then
        (let vapMolFrac = rectifyingOperatingLine refluxRatio distillateMolFrac liqMolFrac
         in case liqMolFraction pressure vapMolFrac lightAntConsts heavyAntConsts of
              None \<Rightarrow> None
            | Some liqMolFrac' \<Rightarrow>
                rectifyingLoop (i + 1) refluxRatio pressure distillateMolFrac feedTray
                  lightAntConsts heavyAntConsts liqMolFrac')
      else Some liqMolFrac)"
  by pat_completeness auto
termination
  by (relation "measure (\<lambda>(i, _, _, _, feedTray, _). nat (feedTray + 1 - i))") auto

declare rectifyingLoop.simps [simp del]

definition rectifyingSection ::
  "jsnum \<Rightarrow> jsnum \<Rightarrow> jsnum \<Rightarrow> int \<Rightarrow> antConsts \<Rightarrow> antConsts \<Rightarrow> jsnum option" where
  "rectifyingSection refluxRatio pressure distillateMolFrac feedTray lightAntConsts heavyAntConsts =
     do { liqMolFrac \<leftarrow> liqMolFraction pressure distillateMolFrac lightAntConsts heavyAntConsts;
          rectifyingLoop 2 refluxRatio pressure distillateMolFrac feedTray
            lightAntConsts heavyAntConsts liqMolFrac }"

function strippingLoop ::
  "int \<Rightarrow> jsnum \<Rightarrow> jsnum \<Rightarrow> jsnum \<Rightarrow> int \<Rightarrow> antConsts \<Rightarrow> antConsts \<Rightarrow> jsnum \<Rightarrow> jsnum \<Rightarrow> jsnum option" where
  "strippingLoop i boilUp pressure bottomsMolFrac feedTray lightAntConsts heavyAntConsts liqMolFrac vapMolFrac =
     (if feedTray \<le> i then
        (let liqMolFrac' = strippingOperatingLine boilUp bottomsMolFrac vapMolFrac
         in case vapMolFraction pressure liqMolFrac' lightAntConsts heavyAntConsts of
              None \<Rightarrow> None
            | Some vapMolFrac' \<Rightarrow>
                strippingLoop (i - 1) boilUp pressure bottomsMolFrac feedTray
                  lightAntConsts heavyAntConsts liqMolFrac' vapMolFrac')
      else Some liqMolFrac)"
  by pat_completeness auto
termination
  by (relation "measure (\<lambda>(i, _, _, _, feedTray, _). nat (i + 1 - feedTray))") auto

declare strippingLoop.simps [simp del]

definition strippingSection ::
  "jsnum \<Rightarrow> jsnum \<Rightarrow> jsnum \<Rightarrow> int \<Rightarrow> int \<Rightarrow> antConsts \<Rightarrow> antConsts \<Rightarrow> jsnum option" where
  "strippingSection boilUp pressure bottomsMolFrac feedTray totalTrays lightAntConsts heavyAntConsts =
     (let liqMolFrac = bottomsMolFrac
      in do { vapMolFrac \<leftarrow> vapMolFraction pressure liqMolFrac lightAntConsts heavyAntConsts;
              strippingLoop totalTrays boilUp pressure bottomsMolFrac feedTray
                lightAntConsts heavyAntConsts liqMolFrac vapMolFrac })"

definition feedTrayDelta ::
  "jsnum \<Rightarrow> jsnum \<Rightarrow> jsnum \<Rightarrow> jsnum \<Rightarrow> jsnum \<Rightarrow> jsnum \<Rightarrow> int \<Rightarrow> int \<Rightarrow> antConsts \<Rightarrow> antConsts
     \<Rightarrow> jsnum option" where
  "feedTrayDelta guessR feedRate xFeed xDistillate xBottoms pressure feedTray totalTrays lightAntConsts heavyAntConsts =
     (case productRates feedRate xFeed xDistillate xBottoms of
        (distillateRate, bottomsRate) \<Rightarrow>
          do { xRectifying \<leftarrow> rectifyingSection guessR pressure xDistillate feedTray lightAntConsts heavyAntConsts;
               let boilUp = boilUpRatio guessR distillateRate bottomsRate;
               xStripping \<leftarrow> strippingSection boilUp pressure xBottoms feedTray totalTrays lightAntConsts heavyAntConsts;
               Some (xRectifying - xStripping) })"

definition minimumRefluxRatio ::
  "jsnum \<Rightarrow> jsnum \<Rightarrow> jsnum \<Rightarrow> antConsts \<Rightarrow> antConsts \<Rightarrow> jsnum option" where
  "minimumRefluxRatio feedXp distillateXp pressure lightAntConsts heavyAntConsts =
     do { equilibriumYp \<leftarrow> vapMolFraction pressure feedXp lightAntConsts heavyAntConsts;
          let slope = (distillateXp - equilibriumYp) / (distillateXp - feedXp);
          Some (slope / (Fin 1 - slope)) }"

section \<open>Reflux-ratio solver\<close>

text \<open>
  The two capped loops of \<open>columnSolver\<close> take the residual
  \<open>\<lambda>r. feedTrayDelta r \<dots>\<close> as \<open>delta\<close>. The doubling loop leaves either through a
  \<open>return\<close> (the function's result) or by falling out of the loop (\<open>break\<close>, or the
  counter reaching the cap) with the current \<open>maxR\<close> and \<open>residualHi\<close>.
\<close>

datatype loopExit = Return jsnum | Fell jsnum jsnum

function upperBoundLoop ::
  "(jsnum \<Rightarrow> jsnum option) \<Rightarrow> jsnum \<Rightarrow> nat \<Rightarrow> jsnum \<Rightarrow> jsnum \<Rightarrow> loopExit option" where
  "upperBoundLoop delta residualLo k maxR residualHi =
     (if k < MAXITERATIONS then
        (let maxR' = maxR * Fin 2
         in case delta maxR' of
              None \<Rightarrow> None
            | Some residualHi' \<Rightarrow>
                if \<not> isFinite residualHi' then upperBoundLoop delta residualLo (k + 1) maxR' residualHi'
                else if \<bar>residualHi'\<bar> < TOL then Some (Return maxR')
                else if \<not> strictEq (js_sign residualHi') (js_sign residualLo)
                  then Some (Fell maxR' residualHi')
                else upperBoundLoop delta residualLo (k + 1) maxR' residualHi')
      else Some (Fell maxR residualHi))"
  by pat_completeness auto
termination
  by (relation "measure (\<lambda>(_, _, k, _). MAXITERATIONS - k)") auto

declare upperBoundLoop.simps [simp del]

function refineLoop ::
  "(jsnum \<Rightarrow> jsnum option) \<Rightarrow> nat \<Rightarrow> jsnum \<Rightarrow> jsnum \<Rightarrow> jsnum \<Rightarrow> jsnum option" where
  "refineLoop delta i minR maxR guessR =
     (if i < MAXITERATIONS then
        (case delta guessR of
           None \<Rightarrow> None
         | Some error \<Rightarrow>
             if \<bar>error\<bar> < TOL then Some guessR
             else if error < Fin 0
               then refineLoop delta (i + 1) minR guessR ((guessR + minR) / Fin 2)
             else refineLoop delta (i + 1) guessR maxR ((maxR + guessR) / Fin 2))
      else Some (Fin (- 1)))"
  by pat_completeness auto
termination
  by (relation "measure (\<lambda>(_, i, _). MAXITERATIONS - i)") auto

declare refineLoop.simps [simp del]

definition columnSolver ::
  "jsnum \<Rightarrow> jsnum \<Rightarrow> jsnum \<Rightarrow> jsnum \<Rightarrow> jsnum \<Rightarrow> int \<Rightarrow> int \<Rightarrow> antConsts \<Rightarrow> antConsts \<Rightarrow> jsnum option" where
  "columnSolver feedRate xFeed xDistillate xBottoms pressure feedTray totalTrays lightAntConsts heavyAntConsts =
     (let delta = (\<lambda>r. feedTrayDelta r feedRate xFeed xDistillate xBottoms pressure feedTray totalTrays
                         lightAntConsts heavyAntConsts)
      in do { minR0 \<leftarrow> minimumRefluxRatio xFeed xDistillate pressure lightAntConsts heavyAntConsts;
              let minR = js_max (Fin 0.00000001) minR0;
              residualLo \<leftarrow> delta minR;
              if \<bar>residualLo\<bar> < TOL then Some minR
              else do { exit \<leftarrow> upperBoundLoop delta residualLo 0 minR residualLo;
                        case exit of
                          Return r \<Rightarrow> Some r
                        | Fell maxR residualHi \<Rightarrow>
                            if \<not> isFinite residualHi \<or> strictEq (js_sign residualHi) (js_sign residualLo)
                            then Some (Fin (- 1))
                            else refineLoop delta 0 minR maxR ((minR + maxR) / Fin 2) } })"

section \<open>Tray data\<close>

record tray =
  trayNumber :: int
  temperature :: jsnum
  liqComp :: jsnum
  vapComp :: jsnum
  refluxRatio :: jsnum
  boilUp :: jsnum

definition createTrayObject :: "int \<Rightarrow> jsnum \<Rightarrow> jsnum \<Rightarrow> jsnum \<Rightarrow> jsnum \<Rightarrow> jsnum \<Rightarrow> tray" where
  "createTrayObject n t l v r s =
     \<lparr> trayNumber = n, temperature = t, liqComp = l, vapComp = v, refluxRatio = r, boilUp = s \<rparr>"

text \<open>
  A JavaScript array is a list of slots, \<open>None\<close> the slot never written. \<open>new Array(n)\<close>
  throws a \<open>RangeError\<close> unless \<open>n\<close> is a 32-bit unsigned integer. A write beyond the end
  extends the array with empty slots; a write at a negative index sets a property and
  leaves the slots as they are.
\<close>

datatype error = RangeError

definition newArray :: "int \<Rightarrow> error + tray option list" where
  "newArray n = (if 0 \<le> n \<and> n < 2 ^ 32 then Inr (replicate (nat n) None) else Inl RangeError)"

definition arraySet :: "tray option list \<Rightarrow> int \<Rightarrow> tray \<Rightarrow> tray option list" where
  "arraySet trays idx v =
     (if idx < 0 then trays
      else if nat idx < length trays then trays[nat idx := Some v]
      else trays @ replicate (nat idx - length trays) None @ [Some v])"

function rectifyingTrays ::
  "int \<Rightarrow> jsnum \<Rightarrow> jsnum \<Rightarrow> jsnum \<Rightarrow> int \<Rightarrow> jsnum \<Rightarrow> antConsts \<Rightarrow> antConsts
     \<Rightarrow> tray option list \<Rightarrow> jsnum \<Rightarrow> tray option list option" where
  "rectifyingTrays i r xDistillate pressure feedTray s lightAntConsts heavyAntConsts trays liq =
     (if i \<le> feedTray then
        (let vap = rectifyingOperatingLine r xDistillate liq
         in case liqMolFraction pressure vap lightAntConsts heavyAntConsts of
              None \<Rightarrow> None
            | Some liq' \<Rightarrow>
               (case equilibriumTemperatureFromX pressure liq' lightAntConsts heavyAntConsts of
                  None \<Rightarrow> None
                | Some temp \<Rightarrow>
                    rectifyingTrays (i + 1) r xDistillate pressure feedTray s lightAntConsts heavyAntConsts
                      (arraySet trays (i - 1) (createTrayObject i temp liq' vap r s)) liq'))
      else Some trays)"
  by pat_completeness auto
termination
  by (relation "measure (\<lambda>(i, _, _, _, feedTray, _). nat (feedTray + 1 - i))") auto

declare rectifyingTrays.simps [simp del]

function strippingTrays ::
  "int \<Rightarrow> jsnum \<Rightarrow> jsnum \<Rightarrow> jsnum \<Rightarrow> int \<Rightarrow> jsnum \<Rightarrow> antConsts \<Rightarrow> antConsts
     \<Rightarrow> tray option list \<Rightarrow> jsnum \<Rightarrow> tray option list option" where
  "strippingTrays i r xBottoms pressure feedTray s lightAntConsts heavyAntConsts trays vap =
     (if feedTray < i then
        (let liq = strippingOperatingLine s xBottoms vap
         in case vapMolFraction pressure liq lightAntConsts heavyAntConsts of
              None \<Rightarrow> None
            | Some vap' \<Rightarrow>
               (case equilibriumTemperatureFromX pressure liq lightAntConsts heavyAntConsts of
                  None \<Rightarrow> None
                | Some temp \<Rightarrow>
                    strippingTrays (i - 1) r xBottoms pressure feedTray s lightAntConsts heavyAntConsts
                      (arraySet trays (i - 1) (createTrayObject i temp liq vap' r s)) vap'))
      else Some trays)"
  by pat_completeness auto
termination
  by (relation "measure (\<lambda>(i, _, _, _, feedTray, _). nat (i - feedTray))") auto

declare strippingTrays.simps [simp del]

text \<open>
  \<open>generateColumnData\<close>: \<open>None\<close> when an equilibrium solve never returns, otherwise the
  thrown error or the array.
\<close>

definition generateColumnData ::
  "jsnum \<Rightarrow> jsnum \<Rightarrow> jsnum \<Rightarrow> jsnum \<Rightarrow> jsnum \<Rightarrow> int \<Rightarrow> int \<Rightarrow> jsnum \<Rightarrow> antConsts \<Rightarrow> antConsts
     \<Rightarrow> (error + tray option list) option" where
  "generateColumnData feedRate xFeed xDistillate xBottoms pressure feedTray totalTrays r lightAntConsts heavyAntConsts =
     (case productRates feedRate xFeed xDistillate xBottoms of
        (distillateRate, bottomsRate) \<Rightarrow>
          (let s = boilUpRatio r distillateRate bottomsRate
           in case newArray (totalTrays + 1) of
                Inl e \<Rightarrow> Some (Inl e)
              | Inr trays \<Rightarrow>
                 (case rectifyingTrays 1 r xDistillate pressure feedTray s lightAntConsts heavyAntConsts
                         trays xDistillate of
                    None \<Rightarrow> None
                  | Some trays' \<Rightarrow>
                      map_option Inr
                        (strippingTrays (totalTrays + 1) r xBottoms pressure feedTray s
                           lightAntConsts heavyAntConsts trays' xBottoms))))"

text \<open>
  The body of the bisection loop as a function of the residual at the current guess, and
  the state \<open>(maxT, minT, tempGuess)\<close> at the head of the loop after \<open>n\<close> iterations
  (\<open>None\<close> when the loop has exited before).
\<close>

definition bisectionStep :: "jsnum \<Rightarrow> jsnum \<times> jsnum \<times> jsnum \<Rightarrow> jsnum \<times> jsnum \<times> jsnum" where
  "bisectionStep result s =
     (case s of (maxT, minT, tempGuess) \<Rightarrow>
        if Fin 0 < result then (tempGuess, minT, (minT + tempGuess) / Fin 2)
        else (maxT, tempGuess, (maxT + tempGuess) / Fin 2))"

fun loopIter :: "(jsnum \<Rightarrow> jsnum) \<Rightarrow> nat \<Rightarrow> jsnum \<times> jsnum \<times> jsnum \<Rightarrow> (jsnum \<times> jsnum \<times> jsnum) option" where
  "loopIter residual 0 s = Some s"
| "loopIter residual (Suc n) (maxT, minT, tempGuess) =
     (if TOL < \<bar>residual tempGuess\<bar>
      then loopIter residual n (bisectionStep (residual tempGuess) (maxT, minT, tempGuess))
      else None)"

text \<open>
  The value of \<open>vaporPressure\<close> at a finite temperature, for finite Antoine constants
  \<open>a\<close>, \<open>b\<close>, \<open>c\<close> and a nonzero denominator, as a function on the reals.
\<close>

definition antoine :: "real \<Rightarrow> real \<Rightarrow> real \<Rightarrow> real \<Rightarrow> real" where
  "antoine a b c t = 10 powr (a - b / ((t - 32) * 5 / 9 + 273.15 + c)) * 14.503773773"

section \<open>Sample inputs\<close>

text \<open>
  Two records of Antoine constants and a specification on which every equilibrium solve
  of the column leaves its loop at the first guess, so that the solver can be evaluated
  by rewriting: at \<open>samplePressure\<close> (1 bar) the first guess is \<open>sampleT\<close>, where the
  vapor pressures are ten times and one tenth of the pressure.
\<close>

definition sampleLight :: antConsts where
  "sampleLight = \<lparr> A = Fin 3, B = Fin 600, C = Fin 0, mol_wt = Fin 1, hVap = Fin 1 \<rparr>"

definition sampleHeavy :: antConsts where
  "sampleHeavy = \<lparr> A = Fin 3, B = Fin 1200, C = Fin 0, mol_wt = Fin 1, hVap = Fin 1 \<rparr>"

definition samplePressure :: jsnum where
  "samplePressure = Fin 14.503773773"

definition sampleT :: jsnum where
  "sampleT = Fin 80.33"

definition sampleXF :: jsnum where
  "sampleXF = Fin 0.090909"

definition sampleXD :: jsnum where
  "sampleXD = Fin 0.9091"

definition sampleXB :: jsnum where
  "sampleXB = Fin 0.090905"

section \<open>Properties\<close>

lemma NaN_absorbs [simp]:
  "x + NaN = NaN" "NaN + x = NaN" "x - NaN = NaN" "NaN - x = NaN"
  "x * NaN = NaN" "NaN * x = NaN" "x / NaN = NaN" "NaN / x = NaN"
  by (cases x; simp add: minus_jsnum_def)+

lemma productRates_Fin:
  assumes "xD \<noteq> xB"
  shows "productRates (Fin F) (Fin xF) (Fin xD) (Fin xB) =
           (Fin (F * (xF - xB) / (xD - xB)), Fin (F - F * (xF - xB) / (xD - xB)))"
  using assms by (simp add: productRates_def minus_jsnum_def)

text \<open>
  C5: for finite feed rate and compositions with \<open>x_B < x_F < x_D\<close>, the pair
  \<open>(D, B)\<close> returned by \<open>productRates\<close> conserves mass: \<open>D + B = F\<close> and
  \<open>D * x_D + B * x_B = F * x_F\<close>, exactly over real arithmetic.
\<close>

theorem productRates_mass_conservation:
  assumes "xB < xF" and "xF < xD"
  shows "fst (productRates (Fin F) (Fin xF) (Fin xD) (Fin xB))
           + snd (productRates (Fin F) (Fin xF) (Fin xD) (Fin xB)) = Fin F
         \<and> fst (productRates (Fin F) (Fin xF) (Fin xD) (Fin xB)) * Fin xD
           + snd (productRates (Fin F) (Fin xF) (Fin xD) (Fin xB)) * Fin xB = Fin F * Fin xF"
proof -
  have ne: "xD \<noteq> xB" using assms by simp
  then have nz: "xD - xB \<noteq> 0" by simp
  define D where "D = F * (xF - xB) / (xD - xB)"
  have "D * (xD - xB) = F * (xF - xB)" using nz by (simp add: D_def)
  then have "D * xD + (F - D) * xB = F * xF" by (simp add: algebra_simps)
  then have "F * (xF - xB) / (xD - xB) * xD + (F - F * (xF - xB) / (xD - xB)) * xB = F * xF"
    by (simp add: D_def)
  then show ?thesis
    by (simp add: productRates_Fin [OF ne])
qed

theorem productRates_mass_conservation_witness:
  "fst (productRates (Fin 1000) (Fin 0.5) (Fin 0.95) (Fin 0.05))
     + snd (productRates (Fin 1000) (Fin 0.5) (Fin 0.95) (Fin 0.05)) = Fin 1000
   \<and> fst (productRates (Fin 1000) (Fin 0.5) (Fin 0.95) (Fin 0.05)) * Fin 0.95
     + snd (productRates (Fin 1000) (Fin 0.5) (Fin 0.95) (Fin 0.05)) * Fin 0.05 = Fin 1000 * Fin 0.5"
  using productRates_mass_conservation [of "0.05" "0.5" "0.95" 1000] by simp

lemma vaporPressure_Fin:
  assumes "A c = Fin a" "B c = Fin b" "C c = Fin cc"
    and "(t - 32) * 5 / 9 + 273.15 + cc \<noteq> 0"
  shows "vaporPressure (Fin t) c
           = Fin (10 powr (a - b / ((t - 32) * 5 / 9 + 273.15 + cc)) * 14.503773773)"
  using assms by (simp add: vaporPressure_def minus_jsnum_def)

text \<open>
  C4: \<open>boilingPointTemperature\<close> inverts \<open>vaporPressure\<close>. For every finite
  temperature and every record of finite Antoine constants for which the two Antoine
  expressions are well defined (the denominators \<open>T_K + C\<close> of \<open>vaporPressure\<close> and
  \<open>A - log10 P\<close> of \<open>boilingPointTemperature\<close> are nonzero),
  \<open>boilingPointTemperature (vaporPressure T c) c\<close> is exactly \<open>T\<close>.
\<close>

theorem boilingPoint_inverts_vaporPressure:
  assumes "A c = Fin a" "B c = Fin b" "C c = Fin cc"
    and "(t - 32) * 5 / 9 + 273.15 + cc \<noteq> 0"
    and "A c - log10 (vaporPressure (Fin t) c / Fin 14.503773773) \<noteq> Fin 0"
  shows "boilingPointTemperature (vaporPressure (Fin t) c) c = Fin t"
proof -
  define d where "d = (t - 32) * 5 / 9 + 273.15 + cc"
  have d: "d \<noteq> 0" using assms(4) by (simp add: d_def)
  have vp: "vaporPressure (Fin t) c = Fin (10 powr (a - b / d) * 14.503773773)"
    using vaporPressure_Fin [OF assms(1-4)] by (simp add: d_def)
  have lg: "log10 (vaporPressure (Fin t) c / Fin 14.503773773) = Fin (a - b / d)"
    by (simp add: vp)
  have "Fin a - Fin (a - b / d) \<noteq> Fin 0" using assms(5) unfolding lg assms(1) .
  then have "b / d \<noteq> 0" by (simp add: minus_jsnum_def)
  then have b: "b \<noteq> 0" by auto
  have e: "a - (a - b / d) = b / d" by simp
  have bd: "b / (b / d) = d" using b d by simp
  have "(d - cc - 273.15) * 9 / 5 + 32 = t"
    by (simp add: d_def field_simps)
  then have "(b / (a - (a - b / d)) - cc - 273.15) * 9 / 5 + 32 = t"
    unfolding e bd .
  moreover have "a - (a - b / d) \<noteq> 0" using b d by simp
  ultimately show ?thesis
    unfolding boilingPointTemperature_def Let_def lg assms(1-3)
    by (simp add: minus_jsnum_def)
qed

theorem boilingPoint_inverts_vaporPressure_witness:
  "boilingPointTemperature (vaporPressure (Fin 32) propaneConstants) propaneConstants = Fin 32"
proof -
  have vp: "vaporPressure (Fin 32) propaneConstants
              = Fin (10 powr (4.53678 - 1149.36 / ((32 - 32) * 5 / 9 + 273.15 + 24.906)) * 14.503773773)"
    by (rule vaporPressure_Fin) (simp_all add: propaneConstants_def)
  have "A propaneConstants - log10 (vaporPressure (Fin 32) propaneConstants / Fin 14.503773773) \<noteq> Fin 0"
    unfolding vp by (simp add: propaneConstants_def minus_jsnum_def)
  then show ?thesis
    by (intro boilingPoint_inverts_vaporPressure [of propaneConstants "4.53678" "1149.36" "24.906" 32])
       (simp_all add: propaneConstants_def)
qed

lemma bisectionLoop_exit:
  "\<not> TOL < \<bar>residual g\<bar> \<Longrightarrow> bisectionLoop residual maxT minT g = Some g"
  by (subst bisectionLoop.simps) simp

lemma sample_guess:
  "(boilingPointTemperature samplePressure sampleLight
      + boilingPointTemperature samplePressure sampleHeavy) / Fin 2 = sampleT"
  by (simp add: boilingPointTemperature_def sampleLight_def sampleHeavy_def samplePressure_def
        sampleT_def minus_jsnum_def)

lemma sample_vaporPressures:
  "vaporPressure sampleT sampleLight = Fin 145.03773773"
  "vaporPressure sampleT sampleHeavy = Fin 1.4503773773"
  by (simp_all add: vaporPressure_def sampleLight_def sampleHeavy_def sampleT_def minus_jsnum_def
        powr_minus)

lemma sample_residualX:
  "binaryequilibriumEquationFromX sampleT samplePressure (Fin x) sampleLight sampleHeavy
     = Fin (14.503773773 * (0.9 - 9.9 * x))"
  unfolding binaryequilibriumEquationFromX_def Let_def sample_vaporPressures
  by (simp add: minus_jsnum_def samplePressure_def field_simps)

lemma sample_residualY:
  "binaryequilibriumEquationFromY sampleT samplePressure (Fin y) sampleLight sampleHeavy
     = Fin (9 - 9.9 * y)"
  unfolding binaryequilibriumEquationFromY_def Let_def sample_vaporPressures
  by (simp add: minus_jsnum_def samplePressure_def field_simps)

lemma sample_equilibriumTemperatureFromX:
  assumes "\<bar>14.503773773 * (0.9 - 9.9 * x)\<bar> \<le> 0.001"
  shows "equilibriumTemperatureFromX samplePressure (Fin x) sampleLight sampleHeavy = Some sampleT"
  unfolding equilibriumTemperatureFromX_def Let_def sample_guess
  using assms by (intro bisectionLoop_exit) (simp add: sample_residualX TOL_def)

lemma sample_equilibriumTemperatureFromY:
  assumes "\<bar>9 - 9.9 * y\<bar> \<le> 0.001"
  shows "equilibriumTemperatureFromY samplePressure (Fin y) sampleLight sampleHeavy = Some sampleT"
  unfolding equilibriumTemperatureFromY_def Let_def sample_guess
  using assms by (intro bisectionLoop_exit) (simp add: sample_residualY TOL_def)

lemma sample_equilibriumTemperature_NaN:
  "equilibriumTemperatureFromX samplePressure NaN sampleLight sampleHeavy = Some sampleT"
  "equilibriumTemperatureFromY samplePressure NaN sampleLight sampleHeavy = Some sampleT"
  unfolding equilibriumTemperatureFromX_def equilibriumTemperatureFromY_def Let_def sample_guess
  by (rule bisectionLoop_exit,
      simp add: binaryequilibriumEquationFromX_def binaryequilibriumEquationFromY_def TOL_def)+

lemma sample_vapMolFraction:
  assumes "\<bar>14.503773773 * (0.9 - 9.9 * x)\<bar> \<le> 0.001"
  shows "vapMolFraction samplePressure (Fin x) sampleLight sampleHeavy = Some (Fin (10 * x))"
  unfolding vapMolFraction_def sample_equilibriumTemperatureFromX [OF assms]
  by (simp add: sample_vaporPressures samplePressure_def)

lemma sample_liqMolFraction:
  assumes "\<bar>9 - 9.9 * y\<bar> \<le> 0.001"
  shows "liqMolFraction samplePressure (Fin y) sampleLight sampleHeavy = Some (Fin (y / 10))"
  unfolding liqMolFraction_def sample_equilibriumTemperatureFromY [OF assms]
  by (simp add: sample_vaporPressures samplePressure_def)

lemma sample_molFraction_NaN:
  "vapMolFraction samplePressure NaN sampleLight sampleHeavy = Some NaN"
  "liqMolFraction samplePressure NaN sampleLight sampleHeavy = Some NaN"
  unfolding vapMolFraction_def liqMolFraction_def sample_equilibriumTemperature_NaN
  by simp_all

lemma sample_minimumRefluxRatio:
  "minimumRefluxRatio sampleXF sampleXD samplePressure sampleLight sampleHeavy
     = Some (Fin (10 / 818181))"
proof -
  have "vapMolFraction samplePressure (Fin 0.090909) sampleLight sampleHeavy = Some (Fin (10 * 0.090909))"
    by (rule sample_vapMolFraction) simp
  then show ?thesis
    unfolding minimumRefluxRatio_def sampleXF_def sampleXD_def by (simp add: minus_jsnum_def)
qed

lemma sample_rectifyingSection:
  "rectifyingSection r samplePressure sampleXD 1 sampleLight sampleHeavy = Some (Fin 0.09091)"
proof -
  have "liqMolFraction samplePressure (Fin 0.9091) sampleLight sampleHeavy = Some (Fin (0.9091 / 10))"
    by (rule sample_liqMolFraction) simp
  then show ?thesis
    unfolding rectifyingSection_def sampleXD_def by (simp add: rectifyingLoop.simps)
qed

lemma sample_strippingSection:
  assumes "S \<noteq> 0" and "S + 1 \<noteq> 0"
    and "\<bar>14.503773773 * (0.9 - 9.9 * xB)\<bar> \<le> 0.001"
    and "\<bar>14.503773773 * (0.9 - 9.9 * ((10 * xB + xB / S) * S / (S + 1)))\<bar> \<le> 0.001"
  shows "strippingSection (Fin S) samplePressure (Fin xB) 1 1 sampleLight sampleHeavy
           = Some (Fin ((10 * xB + xB / S) * S / (S + 1)))"
proof -
  have line: "strippingOperatingLine (Fin S) (Fin xB) (Fin (10 * xB))
                = Fin ((10 * xB + xB / S) * S / (S + 1))"
    using assms(1,2) by (simp add: strippingOperatingLine_def)
  show ?thesis
    unfolding strippingSection_def Let_def sample_vapMolFraction [OF assms(3)]
    by (simp add: strippingLoop.simps [of 1] strippingLoop.simps [of 0] line
          sample_vapMolFraction [OF assms(4)])
qed

lemma sample_feedTrayDelta_min:
  "feedTrayDelta (Fin (10 / 818181)) (Fin 1000) sampleXF sampleXD sampleXB
     samplePressure 1 1 sampleLight sampleHeavy = Some (Fin (163669 / 163637000000))"
  unfolding feedTrayDelta_def productRates_def boilUpRatio_def Let_def sample_rectifyingSection
  unfolding sampleXF_def sampleXD_def sampleXB_def
  apply (simp add: minus_jsnum_def)
  apply (subst sample_strippingSection)
      apply simp_all
  done

lemma sample_columnSolver:
  "columnSolver (Fin 1000) sampleXF sampleXD sampleXB samplePressure 1 1
     sampleLight sampleHeavy = Some (Fin (10 / 818181))"
  unfolding columnSolver_def Let_def sample_minimumRefluxRatio
  by (simp add: TOL_def sample_feedTrayDelta_min)

lemma sample_feedTrayDelta_zero_feed:
  "feedTrayDelta r (Fin 0) sampleXF sampleXD sampleXB
     samplePressure 1 1 sampleLight sampleHeavy = Some NaN"
proof -
  have bu: "boilUpRatio r (Fin 0) (Fin 0) = NaN"
    by (cases r) (simp_all add: boilUpRatio_def)
  have v: "vapMolFraction samplePressure (Fin 0.090905) sampleLight sampleHeavy = Some (Fin (10 * 0.090905))"
    by (rule sample_vapMolFraction) simp
  have "strippingSection NaN samplePressure (Fin 0.090905) 1 1 sampleLight sampleHeavy = Some NaN"
    unfolding strippingSection_def Let_def v
    by (simp add: strippingLoop.simps [of 1] strippingLoop.simps [of 0] strippingOperatingLine_def
          sample_molFraction_NaN)
  then show ?thesis
    unfolding feedTrayDelta_def productRates_def Let_def sample_rectifyingSection
    by (simp add: minus_jsnum_def bu sampleXF_def sampleXD_def sampleXB_def)
qed

lemma upperBoundLoop_all_NaN:
  assumes "\<And>r. delta r = Some NaN"
  shows "\<exists>m. upperBoundLoop delta lo k maxR NaN = Some (Fell m NaN)"
proof (induction "MAXITERATIONS - k" arbitrary: k maxR)
  case 0
  then show ?case by (simp add: upperBoundLoop.simps [of delta lo k])
next
  case (Suc n)
  then have "k < MAXITERATIONS" and "n = MAXITERATIONS - (k + 1)" by simp_all
  with Suc.hyps(1) [of "k + 1" "maxR * Fin 2"] assms show ?case
    by (simp add: upperBoundLoop.simps [of delta lo k])
qed

lemma sample_upperBoundLoop_zero_feed:
  "\<exists>m. upperBoundLoop (\<lambda>r. feedTrayDelta r (Fin 0) sampleXF sampleXD sampleXB
     samplePressure 1 1 sampleLight sampleHeavy) NaN 0 (Fin (10 / 818181)) NaN = Some (Fell m NaN)"
  by (rule upperBoundLoop_all_NaN) (rule sample_feedTrayDelta_zero_feed)

lemma sample_columnSolver_zero_feed:
  "columnSolver (Fin 0) sampleXF sampleXD sampleXB samplePressure 1 1
     sampleLight sampleHeavy = Some (Fin (- 1))"
proof -
  obtain m where "upperBoundLoop (\<lambda>r. feedTrayDelta r (Fin 0) sampleXF sampleXD sampleXB
     samplePressure 1 1 sampleLight sampleHeavy) NaN 0 (Fin (10 / 818181)) NaN = Some (Fell m NaN)"
    using sample_upperBoundLoop_zero_feed by blast
  then show ?thesis
    unfolding columnSolver_def Let_def sample_minimumRefluxRatio
    by (simp add: TOL_def sample_feedTrayDelta_zero_feed)
qed

lemma upperBoundLoop_Return:
  "upperBoundLoop delta lo k maxR hi = Some (Return r) \<Longrightarrow>
     \<exists>d. delta r = Some d \<and> \<bar>d\<bar> < TOL"
proof (induction delta lo k maxR hi rule: upperBoundLoop.induct)
  case (1 delta lo k maxR hi)
  show ?case
  proof (cases "k < MAXITERATIONS")
    case False
    with "1.prems" show ?thesis by (simp add: upperBoundLoop.simps)
  next
    case True
    show ?thesis
    proof (cases "delta (maxR * Fin 2)")
      case None
      with True "1.prems" show ?thesis by (simp add: upperBoundLoop.simps [of delta lo k])
    next
      case (Some h)
      show ?thesis
        using "1.prems" "1.IH"(1) [OF True refl Some] "1.IH"(2) [OF True refl Some] True Some
        by (auto simp add: upperBoundLoop.simps [of delta lo k] Let_def split: if_splits)
    qed
  qed
qed

lemma refineLoop_result:
  "refineLoop delta i minR maxR g = Some r \<Longrightarrow>
     r = Fin (- 1) \<or> (\<exists>d. delta r = Some d \<and> \<bar>d\<bar> < TOL)"
proof (induction delta i minR maxR g rule: refineLoop.induct)
  case (1 delta i minR maxR g)
  show ?case
  proof (cases "i < MAXITERATIONS")
    case False
    with "1.prems" show ?thesis by (simp add: refineLoop.simps)
  next
    case True
    show ?thesis
    proof (cases "delta g")
      case None
      with True "1.prems" show ?thesis by (simp add: refineLoop.simps [of delta i])
    next
      case (Some e)
      show ?thesis
        using "1.prems" "1.IH"(1) [OF True Some] "1.IH"(2) [OF True Some] True Some
        by (simp add: refineLoop.simps [of delta i] split: if_splits)
    qed
  qed
qed


lemma NaN_compare [simp]:
  "\<not> x < NaN" "\<not> NaN < x" "\<not> x \<le> NaN" "\<not> NaN \<le> x"
  by (cases x; simp add: less_eq_jsnum_def)+

lemma le_double:
  assumes "Fin e \<le> x" and "0 < e" and "Fin e \<le> m"
  shows "Fin e \<le> x * Fin 2" and "m \<le> x \<Longrightarrow> m \<le> x * Fin 2"
  using assms by (cases x; cases m; auto simp add: less_eq_jsnum_def)+

lemma le_midpoint:
  assumes "m \<le> x" and "m \<le> y" and "Fin e \<le> m"
  shows "m \<le> (x + y) / Fin 2"
  using assms by (cases x; cases y; cases m; auto simp add: less_eq_jsnum_def)

lemma js_max_cases:
  "js_max (Fin e) m = NaN \<and> m = NaN \<or> Fin e \<le> js_max (Fin e) m \<and> m \<le> js_max (Fin e) m"
  by (cases m) (auto simp add: less_eq_jsnum_def)

lemma upperBoundLoop_ge:
  assumes "upperBoundLoop delta lo k maxR hi = Some x"
    and "Fin e \<le> maxR" and "0 < e" and "Fin e \<le> m" and "m \<le> maxR"
  shows "case x of Return r \<Rightarrow> Fin e \<le> r \<and> m \<le> r | Fell maxR' hi' \<Rightarrow> Fin e \<le> maxR' \<and> m \<le> maxR'"
  using assms
proof (induction delta lo k maxR hi rule: upperBoundLoop.induct)
  case (1 delta lo k maxR hi)
  note d = le_double [OF "1.prems"(2,3,4)]
  show ?case
  proof (cases "k < MAXITERATIONS")
    case False
    with "1.prems" show ?thesis by (auto simp add: upperBoundLoop.simps [of delta lo k])
  next
    case True
    show ?thesis
    proof (cases "delta (maxR * Fin 2)")
      case None
      with True "1.prems" show ?thesis by (simp add: upperBoundLoop.simps [of delta lo k])
    next
      case (Some h)
      show ?thesis
        using "1.prems" "1.IH"(1) [OF True refl Some] "1.IH"(2) [OF True refl Some] True Some d
        by (auto simp add: upperBoundLoop.simps [of delta lo k] Let_def split: if_splits)
    qed
  qed
qed

lemma refineLoop_ge:
  assumes "refineLoop delta i minR maxR g = Some r"
    and "m \<le> minR" and "m \<le> maxR" and "m \<le> g" and "Fin e \<le> m"
  shows "r = Fin (- 1) \<or> m \<le> r"
  using assms
proof (induction delta i minR maxR g rule: refineLoop.induct)
  case (1 delta i minR maxR g)
  show ?case
  proof (cases "i < MAXITERATIONS")
    case False
    with "1.prems" show ?thesis by (simp add: refineLoop.simps [of delta i])
  next
    case True
    show ?thesis
    proof (cases "delta g")
      case None
      with True "1.prems" show ?thesis by (simp add: refineLoop.simps [of delta i])
    next
      case (Some err)
      show ?thesis
        using "1.prems" "1.IH"(1) [OF True Some] "1.IH"(2) [OF True Some] True Some
          le_midpoint [of m g minR e] le_midpoint [of m maxR g e]
        by (auto simp add: refineLoop.simps [of delta i] split: if_splits)
    qed
  qed
qed

lemma upperBoundLoop_NaN:
  assumes "upperBoundLoop delta lo k NaN hi = Some x"
  shows "x = Return NaN \<or> (\<exists>h. x = Fell NaN h)"
  using assms
proof (induction delta lo k "NaN" hi rule: upperBoundLoop.induct)
  case (1 delta lo k hi)
  show ?case
  proof (cases "k < MAXITERATIONS")
    case False
    with "1.prems" show ?thesis by (auto simp add: upperBoundLoop.simps [of delta lo k])
  next
    case True
    show ?thesis
    proof (cases "delta NaN")
      case None
      with True "1.prems" show ?thesis by (simp add: upperBoundLoop.simps [of delta lo k])
    next
      case (Some h)
      show ?thesis
        using "1.prems" "1.hyps" True Some
        by (auto simp add: upperBoundLoop.simps [of delta lo k] Let_def split: if_splits)
    qed
  qed
qed

lemma refineLoop_NaN:
  assumes "refineLoop delta i minR maxR NaN = Some r"
  shows "r = Fin (- 1) \<or> r = NaN"
  using assms
proof (induction delta i minR maxR "NaN" rule: refineLoop.induct)
  case (1 delta i minR maxR)
  show ?case
  proof (cases "i < MAXITERATIONS")
    case False
    with "1.prems" show ?thesis by (simp add: refineLoop.simps [of delta i])
  next
    case True
    show ?thesis
    proof (cases "delta NaN")
      case None
      with True "1.prems" show ?thesis by (simp add: refineLoop.simps [of delta i])
    next
      case (Some err)
      show ?thesis
        using "1.prems" "1.hyps" True Some
        by (auto simp add: refineLoop.simps [of delta i] split: if_splits)
    qed
  qed
qed


lemma strippingLoop_NaN:
  assumes "strippingLoop i NaN pressure xB feedTray light heavy liq vap = Some x"
    and "feedTray \<le> i \<or> liq = NaN"
  shows "x = NaN"
  using assms
proof (induction i "NaN" pressure xB feedTray light heavy liq vap rule: strippingLoop.induct)
  case (1 i pressure xB feedTray light heavy liq vap)
  show ?case
  proof (cases "feedTray \<le> i")
    case False
    with "1.prems" show ?thesis by (simp add: strippingLoop.simps [of i])
  next
    case True
    have line: "strippingOperatingLine NaN xB vap = NaN"
      by (simp add: strippingOperatingLine_def)
    show ?thesis
    proof (cases "vapMolFraction pressure NaN light heavy")
      case None
      with True "1.prems" show ?thesis by (simp add: strippingLoop.simps [of i] line)
    next
      case (Some v)
      show ?thesis
        using "1.prems"(1) "1.hyps" [OF True refl, of v] True Some
        by (simp add: strippingLoop.simps [of i] line)
    qed
  qed
qed

lemma feedTrayDelta_NaN:
  assumes "feedTrayDelta NaN feedRate xFeed xDistillate xBottoms pressure feedTray totalTrays light heavy = Some d"
    and "feedTray \<le> totalTrays"
  shows "d = NaN"
proof -
  obtain dr br where pr: "productRates feedRate xFeed xDistillate xBottoms = (dr, br)"
    by (cases "productRates feedRate xFeed xDistillate xBottoms")
  have bu: "boilUpRatio NaN dr br = NaN" by (simp add: boilUpRatio_def)
  from assms(1) obtain xs where
    "strippingSection NaN pressure xBottoms feedTray totalTrays light heavy = Some xs"
    and d: "\<exists>xr. d = xr - xs"
    unfolding feedTrayDelta_def pr by (auto simp add: bu split: bind_splits)
  then have "xs = NaN"
    unfolding strippingSection_def Let_def
    using strippingLoop_NaN assms(2) by (fastforce split: bind_splits)
  with d show ?thesis by auto
qed

lemma vaporPressure_boilingPoint:
  assumes "A c = Fin a" "B c = Fin b" "C c = Fin cc"
    and "0 < p" and "b \<noteq> 0" and "a \<noteq> log 10 (p / 14.503773773)"
  shows "\<exists>t. boilingPointTemperature (Fin p) c = Fin t \<and> vaporPressure (Fin t) c = Fin p"
proof -
  define lg where "lg = log 10 (p / 14.503773773)"
  define tK where "tK = b / (a - lg) - cc"
  define t where "t = (tK - 273.15) * 9 / 5 + 32"
  have nz: "a - lg \<noteq> 0" using assms(6) by (simp add: lg_def)
  have pos: "0 < p / 14.503773773" using assms(4) by simp
  have bp: "boilingPointTemperature (Fin p) c = Fin t"
    unfolding boilingPointTemperature_def Let_def assms(1-3)
    using pos nz by (simp add: minus_jsnum_def t_def tK_def lg_def)
  have "((u - cc - 273.15) * 9 / 5 + 32 - 32) * 5 / 9 + 273.15 + cc = u" for u :: real
    by (simp add: field_simps)
  then have tk: "(t - 32) * 5 / 9 + 273.15 + cc = b / (a - lg)"
    unfolding t_def tK_def .
  have d: "b / (a - lg) \<noteq> 0" using nz assms(5) by simp
  then have nz': "(t - 32) * 5 / 9 + 273.15 + cc \<noteq> 0" unfolding tk .
  have e: "a - b / (b / (a - lg)) = lg" using nz assms(5) by simp
  have pw: "10 powr lg = p / 14.503773773"
    unfolding lg_def using pos by simp
  have "vaporPressure (Fin t) c = Fin (10 powr (a - b / (b / (a - lg))) * 14.503773773)"
    using vaporPressure_Fin [OF assms(1-3) nz'] unfolding tk .
  then have "vaporPressure (Fin t) c = Fin p"
    unfolding e pw by simp
  with bp show ?thesis by blast
qed

lemma same_compound_temperature:
  assumes "boilingPointTemperature p c = Fin t" and "vaporPressure (Fin t) c = p" and "p = Fin q"
    and "q \<noteq> 0"
  shows "equilibriumTemperatureFromX p (Fin x) c c = Some (Fin t)"
    and "equilibriumTemperatureFromY p (Fin x) c c = Some (Fin t)"
proof -
  have g: "(Fin t + Fin t) / Fin 2 = Fin t" by simp
  have "binaryequilibriumEquationFromX (Fin t) p (Fin x) c c = Fin 0"
    unfolding binaryequilibriumEquationFromX_def Let_def assms(2)
    by (simp add: assms(3) minus_jsnum_def algebra_simps)
  then show "equilibriumTemperatureFromX p (Fin x) c c = Some (Fin t)"
    unfolding equilibriumTemperatureFromX_def Let_def assms(1) g
    by (intro bisectionLoop_exit) (simp add: TOL_def)
  have "binaryequilibriumEquationFromY (Fin t) p (Fin x) c c = Fin 0"
    unfolding binaryequilibriumEquationFromY_def Let_def assms(2)
    using assms(4) by (simp add: assms(3) minus_jsnum_def field_simps)
  then show "equilibriumTemperatureFromY p (Fin x) c c = Some (Fin t)"
    unfolding equilibriumTemperatureFromY_def Let_def assms(1) g
    by (intro bisectionLoop_exit) (simp add: TOL_def)
qed

lemma propane_at_samplePressure:
  "\<exists>t. boilingPointTemperature samplePressure propaneConstants = Fin t
       \<and> vaporPressure (Fin t) propaneConstants = samplePressure"
  unfolding samplePressure_def
  by (rule vaporPressure_boilingPoint [of _ "4.53678" "1149.36" "24.906"])
     (simp_all add: propaneConstants_def)

lemma same_compound_columnSolver:
  "columnSolver (Fin 1000) (Fin 0.5) (Fin 0.5) (Fin 0.5) samplePressure 1 0
     propaneConstants propaneConstants = Some NaN"
proof -
  obtain t where bp: "boilingPointTemperature samplePressure propaneConstants = Fin t"
    and vp: "vaporPressure (Fin t) propaneConstants = samplePressure"
    using propane_at_samplePressure by blast
  have sp: "samplePressure = Fin 14.503773773" by (simp add: samplePressure_def)
  have tx: "equilibriumTemperatureFromX samplePressure (Fin x) propaneConstants propaneConstants = Some (Fin t)" for x
    by (rule same_compound_temperature(1) [OF bp vp sp]) simp
  have ty: "equilibriumTemperatureFromY samplePressure (Fin x) propaneConstants propaneConstants = Some (Fin t)" for x
    by (rule same_compound_temperature(2) [OF bp vp sp]) simp
  have v: "vapMolFraction samplePressure (Fin (1 / 2)) propaneConstants propaneConstants = Some (Fin (1 / 2))"
    unfolding vapMolFraction_def tx by (simp add: vp sp)
  have l: "liqMolFraction samplePressure (Fin (1 / 2)) propaneConstants propaneConstants = Some (Fin (1 / 2))"
    unfolding liqMolFraction_def ty by (simp add: vp sp)
  have m: "minimumRefluxRatio (Fin (1 / 2)) (Fin (1 / 2)) samplePressure propaneConstants propaneConstants = Some NaN"
    unfolding minimumRefluxRatio_def v by (simp add: minus_jsnum_def)
  have d: "feedTrayDelta NaN (Fin 1000) (Fin (1 / 2)) (Fin (1 / 2)) (Fin (1 / 2)) samplePressure 1 0
             propaneConstants propaneConstants = Some (Fin 0)"
    unfolding feedTrayDelta_def productRates_def Let_def rectifyingSection_def strippingSection_def
    by (simp add: v l rectifyingLoop.simps [of 2] strippingLoop.simps [of 0] minus_jsnum_def)
  show ?thesis
    unfolding columnSolver_def Let_def
    by (simp add: m d TOL_def)
qed

lemma jsnum_le_trans:
  fixes x y z :: jsnum
  shows "x \<le> y \<Longrightarrow> y \<le> z \<Longrightarrow> x \<le> z"
  by (cases x; cases y; cases z; auto simp add: less_eq_jsnum_def)

lemma jsnum_le_refl:
  fixes x :: jsnum
  shows "x \<noteq> NaN \<Longrightarrow> x \<le> x"
  by (simp add: less_eq_jsnum_def)

text \<open>
  C1: whenever \<open>columnSolver\<close> returns, the value is the sentinel \<open>-1\<close> or a reflux
  ratio \<open>R\<close> at which \<open>feedTrayDelta\<close>, on the same arguments, returns a residual of
  magnitude below \<open>TOL\<close>.
\<close>

theorem columnSolver_result_converged:
  assumes "columnSolver feedRate xFeed xDistillate xBottoms pressure feedTray totalTrays light heavy = Some r"
  shows "r = Fin (- 1) \<or>
         (\<exists>d. feedTrayDelta r feedRate xFeed xDistillate xBottoms pressure feedTray totalTrays light heavy = Some d
              \<and> \<bar>d\<bar> < TOL)"
  using assms upperBoundLoop_Return refineLoop_result
  unfolding columnSolver_def Let_def
  by (fastforce split: bind_splits if_splits loopExit.splits)

theorem columnSolver_result_converged_witness:
  "columnSolver (Fin 1000) sampleXF sampleXD sampleXB samplePressure 1 1 sampleLight sampleHeavy
     = Some (Fin (10 / 818181))
   \<and> (\<exists>d. feedTrayDelta (Fin (10 / 818181)) (Fin 1000) sampleXF sampleXD sampleXB samplePressure 1 1
              sampleLight sampleHeavy = Some d \<and> \<bar>d\<bar> < TOL)"
  using columnSolver_result_converged [OF sample_columnSolver] sample_columnSolver by simp

text \<open>
  C10 (as stated): every value returned by \<open>columnSolver\<close> is \<open>-1\<close> or a number that is at
  least \<open>1e-8\<close>. With one compound given twice, equal compositions and a feed tray below
  the last tray, the minimum reflux ratio is \<open>0 / 0\<close>, the residual there does not depend
  on the reflux ratio, and the solver returns \<open>NaN\<close>.
\<close>

theorem columnSolver_result_range_counterexample:
  "columnSolver (Fin 1000) (Fin 0.5) (Fin 0.5) (Fin 0.5) samplePressure 1 0
     propaneConstants propaneConstants = Some NaN
   \<and> NaN \<noteq> Fin (- 1) \<and> \<not> Fin 0.00000001 \<le> NaN"
  using same_compound_columnSolver by simp

text \<open>
  C10 (amended): every value returned by \<open>columnSolver\<close> is \<open>-1\<close>, or at least \<open>1e-8\<close>, or
  \<open>NaN\<close>, the last only when \<open>totalTrays < feedTray\<close>; and the test \<open>result <= 0\<close> holds
  exactly of \<open>-1\<close>.
\<close>

theorem columnSolver_result_range:
  assumes "columnSolver feedRate xFeed xDistillate xBottoms pressure feedTray totalTrays light heavy = Some r"
  shows "(r = Fin (- 1) \<or> Fin 0.00000001 \<le> r \<or> (r = NaN \<and> totalTrays < feedTray))
         \<and> (r \<le> Fin 0) = (r = Fin (- 1))"
proof -
  have test: "(r \<le> Fin 0) = (r = Fin (- 1))"
    if "r = Fin (- 1) \<or> Fin 0.00000001 \<le> r \<or> r = NaN"
    using that by (cases r) (auto simp add: less_eq_jsnum_def)
  define delta where "delta = (\<lambda>r. feedTrayDelta r feedRate xFeed xDistillate xBottoms pressure
     feedTray totalTrays light heavy)"
  from assms obtain m0 lo where m0: "minimumRefluxRatio xFeed xDistillate pressure light heavy = Some m0"
    and lo: "delta (js_max (Fin 0.00000001) m0) = Some lo"
    unfolding columnSolver_def Let_def delta_def by (auto split: bind_splits)
  define minR where "minR = js_max (Fin 0.00000001) m0"
  have rest: "(if \<bar>lo\<bar> < TOL then Some minR
               else upperBoundLoop delta lo 0 minR lo \<bind>
                 (\<lambda>exit. case exit of Return r \<Rightarrow> Some r
                    | Fell maxR residualHi \<Rightarrow>
                        if \<not> isFinite residualHi \<or> strictEq (js_sign residualHi) (js_sign lo)
                        then Some (Fin (- 1))
                        else refineLoop delta 0 minR maxR ((minR + maxR) / Fin 2))) = Some r"
    using assms m0 lo unfolding columnSolver_def Let_def delta_def minR_def by simp
  have conv: "r = Fin (- 1) \<or> (\<exists>d. delta r = Some d \<and> \<bar>d\<bar> < TOL)"
    using rest lo upperBoundLoop_Return [of delta lo 0 minR lo r]
      refineLoop_result [of delta 0 minR _ _ r]
    unfolding minR_def
    by (auto split: if_splits bind_splits loopExit.splits)
  consider (nan) "minR = NaN" | (ge) "Fin 0.00000001 \<le> minR"
    using js_max_cases [of "0.00000001" m0] unfolding minR_def by auto
  then show ?thesis
  proof cases
    case ge
    have "r = Fin (- 1) \<or> Fin 0.00000001 \<le> r"
      using rest ge upperBoundLoop_ge [of delta lo 0 minR lo _ "0.00000001" "Fin 0.00000001"]
        refineLoop_ge [of delta 0 minR _ _ r "Fin 0.00000001" "0.00000001"]
        le_midpoint [of "Fin 0.00000001" minR _ "0.00000001"]
      by (auto simp add: less_eq_jsnum_def [of "Fin _" "Fin _"] split: if_splits bind_splits loopExit.splits)
    then show ?thesis using test by auto
  next
    case nan
    have "r = Fin (- 1) \<or> r = NaN"
      using rest nan upperBoundLoop_NaN [of delta lo 0 lo] refineLoop_NaN [of delta 0 NaN _ r]
      by (auto split: if_splits bind_splits loopExit.splits)
    moreover have "totalTrays < feedTray" if "r = NaN"
    proof (rule ccontr)
      assume "\<not> totalTrays < feedTray"
      then have le: "feedTray \<le> totalTrays" by simp
      from conv that obtain d where "delta NaN = Some d" and "\<bar>d\<bar> < TOL" by auto
      with feedTrayDelta_NaN [OF _ le] show False unfolding delta_def by fastforce
    qed
    ultimately show ?thesis using test by auto
  qed
qed

theorem columnSolver_result_range_witness:
  "columnSolver (Fin 1000) sampleXF sampleXD sampleXB samplePressure 1 1 sampleLight sampleHeavy
     = Some (Fin (10 / 818181))
   \<and> Fin 0.00000001 \<le> Fin (10 / 818181)
   \<and> \<not> Fin (10 / 818181) \<le> Fin 0"
  using columnSolver_result_range [OF sample_columnSolver] sample_columnSolver
  by (simp add: less_eq_jsnum_def)

text \<open>
  C6 (as stated): a feasible result of \<open>columnSolver\<close> is strictly greater than
  \<open>minimumRefluxRatio\<close> of the same specification. On the sample specification the
  residual at the minimum reflux ratio is already below \<open>TOL\<close>, and the solver returns the
  minimum reflux ratio itself.
\<close>

theorem columnSolver_result_lower_bound_counterexample:
  "columnSolver (Fin 1000) sampleXF sampleXD sampleXB samplePressure 1 1 sampleLight sampleHeavy
     = Some (Fin (10 / 818181))
   \<and> minimumRefluxRatio sampleXF sampleXD samplePressure sampleLight sampleHeavy
     = Some (Fin (10 / 818181))
   \<and> Fin (10 / 818181) \<noteq> Fin (- 1)
   \<and> \<not> Fin (10 / 818181) < Fin (10 / 818181)"
  using sample_columnSolver sample_minimumRefluxRatio by simp

text \<open>
  C6 (amended): a feasible result \<open>R\<close> of \<open>columnSolver\<close> is at least \<open>minimumRefluxRatio\<close> of
  the same specification (when that is a number), and at least \<open>1e-8\<close>; the residual at
  the floored minimum reflux ratio \<open>max(1e-8, minimumRefluxRatio)\<close> has been evaluated, and
  when it is within \<open>TOL\<close>, \<open>R\<close> is equal to the floored minimum reflux ratio.
\<close>

theorem columnSolver_result_lower_bound:
  assumes "columnSolver feedRate xFeed xDistillate xBottoms pressure feedTray totalTrays light heavy = Some r"
    and "r \<noteq> Fin (- 1)"
    and "minimumRefluxRatio xFeed xDistillate pressure light heavy = Some m"
    and "m \<noteq> NaN"
  shows "m \<le> r \<and> Fin 0.00000001 \<le> r
         \<and> (\<exists>residualLo.
               feedTrayDelta (js_max (Fin 0.00000001) m) feedRate xFeed xDistillate xBottoms pressure
                 feedTray totalTrays light heavy = Some residualLo
               \<and> (\<bar>residualLo\<bar> < TOL \<longrightarrow> r = js_max (Fin 0.00000001) m))"
proof -
  define delta where "delta = (\<lambda>r. feedTrayDelta r feedRate xFeed xDistillate xBottoms pressure
     feedTray totalTrays light heavy)"
  define minR where "minR = js_max (Fin 0.00000001) m"
  from assms(1,3) obtain lo where lo: "delta minR = Some lo"
    unfolding columnSolver_def Let_def delta_def minR_def by (auto split: bind_splits)
  have rest: "(if \<bar>lo\<bar> < TOL then Some minR
               else upperBoundLoop delta lo 0 minR lo \<bind>
                 (\<lambda>exit. case exit of Return r \<Rightarrow> Some r
                    | Fell maxR residualHi \<Rightarrow>
                        if \<not> isFinite residualHi \<or> strictEq (js_sign residualHi) (js_sign lo)
                        then Some (Fin (- 1))
                        else refineLoop delta 0 minR maxR ((minR + maxR) / Fin 2))) = Some r"
    using assms(1,3) lo unfolding columnSolver_def Let_def delta_def minR_def by simp
  have ge: "Fin 0.00000001 \<le> minR" and mle: "m \<le> minR"
    using js_max_cases [of "0.00000001" m] assms(4) unfolding minR_def by auto
  then have refl: "minR \<le> minR" by (auto simp add: less_eq_jsnum_def)
  have le: "minR \<le> r"
    using rest assms(2) ge refl
      upperBoundLoop_ge [of delta lo 0 minR lo _ "0.00000001" minR]
      refineLoop_ge [of delta 0 minR _ _ r minR "0.00000001"]
      le_midpoint [of minR minR _ "0.00000001"]
    by (auto split: if_splits bind_splits loopExit.splits)
  have "r = minR" if "\<bar>lo\<bar> < TOL"
    using rest that by simp
  then have "\<bar>lo\<bar> < TOL \<longrightarrow> r = minR" ..
  with lo have "\<exists>residualLo. delta minR = Some residualLo \<and> (\<bar>residualLo\<bar> < TOL \<longrightarrow> r = minR)"
    by blast
  with ge mle le show ?thesis
    unfolding delta_def minR_def by (blast intro: jsnum_le_trans)
qed

theorem columnSolver_result_lower_bound_witness:
  "columnSolver (Fin 1000) sampleXF sampleXD sampleXB samplePressure 1 1 sampleLight sampleHeavy
     = Some (Fin (10 / 818181))
   \<and> Fin (10 / 818181) \<noteq> Fin (- 1)
   \<and> minimumRefluxRatio sampleXF sampleXD samplePressure sampleLight sampleHeavy
     = Some (Fin (10 / 818181))
   \<and> Fin (10 / 818181) \<noteq> NaN
   \<and> Fin (10 / 818181) \<le> Fin (10 / 818181) \<and> Fin 0.00000001 \<le> Fin (10 / 818181)
   \<and> feedTrayDelta (js_max (Fin 0.00000001) (Fin (10 / 818181))) (Fin 1000) sampleXF sampleXD sampleXB
         samplePressure 1 1 sampleLight sampleHeavy = Some (Fin (163669 / 163637000000))
   \<and> \<bar>Fin (163669 / 163637000000)\<bar> < TOL
   \<and> Fin (10 / 818181) = js_max (Fin 0.00000001) (Fin (10 / 818181))"
  using columnSolver_result_lower_bound [OF sample_columnSolver _ sample_minimumRefluxRatio]
    sample_columnSolver sample_minimumRefluxRatio sample_feedTrayDelta_min
  by (simp add: TOL_def)

lemma upperBoundLoop_exhausted:
  assumes "\<forall>j. k < j \<and> j \<le> MAXITERATIONS \<longrightarrow>
      (\<exists>h. delta (((\<lambda>r. r * Fin 2) ^^ j) rInit) = Some h
         \<and> (\<not> isFinite h \<or> (\<not> \<bar>h\<bar> < TOL \<and> strictEq (js_sign h) (js_sign lo))))"
    and "k < MAXITERATIONS"
  shows "\<exists>h. upperBoundLoop delta lo k (((\<lambda>r. r * Fin 2) ^^ k) rInit) hi
              = Some (Fell (((\<lambda>r. r * Fin 2) ^^ MAXITERATIONS) rInit) h)
           \<and> (\<not> isFinite h \<or> strictEq (js_sign h) (js_sign lo))"
proof -
  define dbl where "dbl = (\<lambda>j. ((\<lambda>r. r * Fin 2) ^^ j) rInit)"
  have dS: "dbl (Suc j) = dbl j * Fin 2" for j by (simp add: dbl_def)
  have iter: "upperBoundLoop delta lo j (dbl j) hi = upperBoundLoop delta lo (Suc j) (dbl (Suc j)) h"
    if "j < MAXITERATIONS" "delta (dbl (Suc j)) = Some h"
      "\<not> isFinite h \<or> (\<not> \<bar>h\<bar> < TOL \<and> strictEq (js_sign h) (js_sign lo))" for j h hi
    using that unfolding dS
    by (subst upperBoundLoop.simps) (auto simp add: Let_def)
  have all: "\<exists>h. delta (dbl j) = Some h
         \<and> (\<not> isFinite h \<or> (\<not> \<bar>h\<bar> < TOL \<and> strictEq (js_sign h) (js_sign lo)))"
    if "k < j" "j \<le> MAXITERATIONS" for j
    using assms(1) that unfolding dbl_def by blast
  have "\<exists>h. upperBoundLoop delta lo j (dbl j) hi = Some (Fell (dbl MAXITERATIONS) h)
           \<and> (\<not> isFinite h \<or> strictEq (js_sign h) (js_sign lo))"
    if "k \<le> j" "j < MAXITERATIONS" for j hi
    using that
  proof (induction "MAXITERATIONS - Suc j" arbitrary: j hi)
    case 0
    then have last: "Suc j = MAXITERATIONS" by simp
    obtain h where h: "delta (dbl (Suc j)) = Some h"
      and hp: "\<not> isFinite h \<or> (\<not> \<bar>h\<bar> < TOL \<and> strictEq (js_sign h) (js_sign lo))"
      using all [of "Suc j"] "0.prems" by auto
    have "upperBoundLoop delta lo (Suc j) (dbl (Suc j)) h = Some (Fell (dbl (Suc j)) h)"
      using last by (subst upperBoundLoop.simps) simp
    then have "upperBoundLoop delta lo j (dbl j) hi = Some (Fell (dbl (Suc j)) h)"
      using iter [OF "0.prems"(2) h hp] by simp
    then show ?case using hp unfolding last by blast
  next
    case (Suc n)
    then have more: "Suc j < MAXITERATIONS" and n: "n = MAXITERATIONS - Suc (Suc j)" by simp_all
    obtain h where h: "delta (dbl (Suc j)) = Some h"
      and hp: "\<not> isFinite h \<or> (\<not> \<bar>h\<bar> < TOL \<and> strictEq (js_sign h) (js_sign lo))"
      using all [of "Suc j"] Suc.prems by auto
    from Suc.hyps(1) [OF n _ more, of h] Suc.prems(1) iter [OF Suc.prems(2) h hp, of hi]
    show ?case by simp
  qed
  from this [of k hi] assms(2) show ?thesis unfolding dbl_def by simp
qed

lemma upperBoundLoop_step:
  assumes "k < MAXITERATIONS" and "delta (maxR * Fin 2) = Some h"
  shows "upperBoundLoop delta lo k maxR hi =
     (if \<not> isFinite h then upperBoundLoop delta lo (Suc k) (maxR * Fin 2) h
      else if \<bar>h\<bar> < TOL then Some (Return (maxR * Fin 2))
      else if \<not> strictEq (js_sign h) (js_sign lo) then Some (Fell (maxR * Fin 2) h)
      else upperBoundLoop delta lo (Suc k) (maxR * Fin 2) h)"
  using assms by (subst upperBoundLoop.simps) (simp add: Let_def)

lemma upperBoundLoop_skip:
  assumes "\<forall>j. k < j \<and> j \<le> n \<longrightarrow>
      (\<exists>h. delta (((\<lambda>r. r * Fin 2) ^^ j) rInit) = Some h \<and> \<not> isFinite h)"
    and "k \<le> n" and "n < MAXITERATIONS"
  shows "upperBoundLoop delta lo k (((\<lambda>r. r * Fin 2) ^^ k) rInit) hi
         = upperBoundLoop delta lo n (((\<lambda>r. r * Fin 2) ^^ n) rInit) hi'"
  using assms(2,1,3)
proof (induction n arbitrary: hi' rule: dec_induct)
  case base
  then show ?case
    by (simp add: upperBoundLoop.simps [of delta lo k _ hi] upperBoundLoop.simps [of delta lo k _ hi'])
next
  case (step n)
  define dbl where "dbl = (\<lambda>j. ((\<lambda>r. r * Fin 2) ^^ j) rInit)"
  have dS: "dbl (Suc j) = dbl j * Fin 2" for j by (simp add: dbl_def)
  from step.prems(1) obtain h where h: "delta (dbl (Suc n)) = Some h" and nf: "\<not> isFinite h"
    unfolding dbl_def using step.hyps(1) by (metis le_imp_less_Suc order_refl)
  have n: "n < MAXITERATIONS" using step.prems(2) by simp
  have "upperBoundLoop delta lo k (dbl k) hi = upperBoundLoop delta lo n (dbl n) hi"
    unfolding dbl_def using step.IH [of hi] step.prems n by simp
  also have "\<dots> = upperBoundLoop delta lo (Suc n) (dbl (Suc n)) h"
    using upperBoundLoop_step [where delta = delta and maxR = "dbl n" and lo = lo and hi = hi, OF n h [unfolded dS]] nf unfolding dS by simp
  also have "\<dots> = upperBoundLoop delta lo (Suc n) (dbl (Suc n)) hi'"
    using step.prems(2)
    by (simp add: upperBoundLoop.simps [of delta lo "Suc n" _ h]
          upperBoundLoop.simps [of delta lo "Suc n" _ hi'])
  finally show ?case unfolding dbl_def .
qed

lemma upperBoundLoop_Fell:
  assumes "upperBoundLoop delta lo k (((\<lambda>r. r * Fin 2) ^^ k) rInit) hi = Some (Fell maxR h)"
    and "k < MAXITERATIONS"
  shows "\<exists>j. k < j \<and> j \<le> MAXITERATIONS \<and> maxR = ((\<lambda>r. r * Fin 2) ^^ j) rInit
            \<and> delta maxR = Some h"
proof -
  define dbl where "dbl = (\<lambda>j. ((\<lambda>r. r * Fin 2) ^^ j) rInit)"
  have dS: "dbl (Suc j) = dbl j * Fin 2" for j by (simp add: dbl_def)
  have "\<exists>j. k < j \<and> j \<le> MAXITERATIONS \<and> maxR = dbl j \<and> delta maxR = Some h"
    if "upperBoundLoop delta lo k (dbl k) hi = Some (Fell maxR h)" "k < MAXITERATIONS" for k hi
    using that
  proof (induction "MAXITERATIONS - Suc k" arbitrary: k hi)
    case 0
    then have last: "Suc k = MAXITERATIONS" by simp
    from "0.prems" obtain h' where h': "delta (dbl (Suc k)) = Some h'"
      unfolding dS by (subst (asm) upperBoundLoop.simps) (auto simp add: Let_def split: option.splits)
    have stop: "upperBoundLoop delta lo (Suc k) (dbl (Suc k)) h' = Some (Fell (dbl (Suc k)) h')"
      using last by (subst upperBoundLoop.simps) simp
    from "0.prems"(1) have "maxR = dbl (Suc k) \<and> h = h'"
      unfolding upperBoundLoop_step [where delta = delta and maxR = "dbl k", OF "0.prems"(2) h' [unfolded dS]]
      using stop unfolding dS by (auto split: if_splits)
    with h' last show ?case by auto
  next
    case (Suc n)
    then have more: "Suc k < MAXITERATIONS" and n: "n = MAXITERATIONS - Suc (Suc k)" by simp_all
    from Suc.prems obtain h' where h': "delta (dbl (Suc k)) = Some h'"
      unfolding dS by (subst (asm) upperBoundLoop.simps) (auto simp add: Let_def split: option.splits)
    from Suc.prems(1) have
      "(maxR = dbl (Suc k) \<and> h = h')
        \<or> upperBoundLoop delta lo (Suc k) (dbl (Suc k)) h' = Some (Fell maxR h)"
      unfolding upperBoundLoop_step [where delta = delta and maxR = "dbl k", OF Suc.prems(2) h' [unfolded dS]] dS
      by (auto split: if_splits)
    then show ?case
    proof
      assume "maxR = dbl (Suc k) \<and> h = h'"
      with h' more show ?thesis by auto
    next
      assume "upperBoundLoop delta lo (Suc k) (dbl (Suc k)) h' = Some (Fell maxR h)"
      from Suc.hyps(1) [OF n this more] obtain j where
        "Suc k < j" "j \<le> MAXITERATIONS" "maxR = dbl j" "delta maxR = Some h" by blast
      then have "k < j \<and> j \<le> MAXITERATIONS \<and> maxR = dbl j \<and> delta maxR = Some h" by simp
      then show ?thesis by blast
    qed
  qed
  from this [OF _ assms(2), of hi] assms(1) show ?thesis unfolding dbl_def by simp
qed

lemma upperBoundLoop_exhausted_residual:
  assumes "\<forall>j. k < j \<and> j \<le> MAXITERATIONS \<longrightarrow>
      (\<exists>h. delta (((\<lambda>r. r * Fin 2) ^^ j) rInit) = Some h
         \<and> (\<not> isFinite h \<or> (\<not> \<bar>h\<bar> < TOL \<and> strictEq (js_sign h) (js_sign lo))))"
    and "k < MAXITERATIONS"
  shows "\<exists>h. delta (((\<lambda>r. r * Fin 2) ^^ MAXITERATIONS) rInit) = Some h
           \<and> upperBoundLoop delta lo k (((\<lambda>r. r * Fin 2) ^^ k) rInit) hi
              = Some (Fell (((\<lambda>r. r * Fin 2) ^^ MAXITERATIONS) rInit) h)
           \<and> (\<not> isFinite h \<or> strictEq (js_sign h) (js_sign lo))"
proof -
  from upperBoundLoop_exhausted [OF assms, of hi] obtain h where
    u: "upperBoundLoop delta lo k (((\<lambda>r. r * Fin 2) ^^ k) rInit) hi
              = Some (Fell (((\<lambda>r. r * Fin 2) ^^ MAXITERATIONS) rInit) h)"
    and s: "\<not> isFinite h \<or> strictEq (js_sign h) (js_sign lo)" by blast
  from upperBoundLoop_Fell [OF u assms(2)] have "delta (((\<lambda>r. r * Fin 2) ^^ MAXITERATIONS) rInit) = Some h"
    by auto
  with u s show ?thesis by blast
qed

text \<open>
  C7: in the upper-bound search of \<open>columnSolver\<close> the trial reflux ratio starts at the
  floored minimum reflux ratio and is doubled before each evaluation of the residual;
  \<open>dbl j\<close> is the trial ratio after \<open>j\<close> doublings. A non-finite residual does not stop the
  search: after any number \<open>n\<close> of non-finite residuals (below the cap) the residual at
  the next doubled ratio \<open>dbl (n + 1)\<close> is evaluated and decides how the solver goes on (it
  returns that ratio when the residual is within \<open>TOL\<close>, refines between the lower bound
  and that ratio on a finite residual of the other sign, and doubles again otherwise).
  When the search falls out of its loop, it does so at a ratio \<open>dbl j\<close> with the residual
  evaluated there, and if that last residual is non-finite or has the sign of the lower
  bound's residual, \<open>columnSolver\<close> returns \<open>-1\<close>. When each of the 100 doublings gives a
  residual that is non-finite, or outside the tolerance with the sign of the lower bound's
  residual, the search ends at the ratio \<open>dbl 100\<close> with the residual evaluated there, and
  \<open>columnSolver\<close> returns \<open>-1\<close>.
\<close>

theorem columnSolver_upper_bound_search:
  assumes "minimumRefluxRatio xFeed xDistillate pressure light heavy = Some m"
    and "delta = (\<lambda>r. feedTrayDelta r feedRate xFeed xDistillate xBottoms pressure feedTray totalTrays
                          light heavy)"
    and "dbl = (\<lambda>j. ((\<lambda>r. r * Fin 2) ^^ j) (js_max (Fin 0.00000001) m))"
    and "delta (dbl 0) = Some residualLo"
    and "\<not> \<bar>residualLo\<bar> < TOL"
  shows "(\<forall>n h. n < MAXITERATIONS
            \<and> (\<forall>j. 0 < j \<and> j \<le> n \<longrightarrow> (\<exists>h'. delta (dbl j) = Some h' \<and> \<not> isFinite h'))
            \<and> delta (dbl (Suc n)) = Some h
          \<longrightarrow> columnSolver feedRate xFeed xDistillate xBottoms pressure feedTray totalTrays light heavy
              = (if isFinite h \<and> \<bar>h\<bar> < TOL then Some (dbl (Suc n))
                 else if isFinite h \<and> \<not> strictEq (js_sign h) (js_sign residualLo)
                   then refineLoop delta 0 (dbl 0) (dbl (Suc n)) ((dbl 0 + dbl (Suc n)) / Fin 2)
                 else upperBoundLoop delta residualLo (Suc n) (dbl (Suc n)) h \<bind>
                   (\<lambda>exit. case exit of
                      Return r \<Rightarrow> Some r
                    | Fell maxR residualHi \<Rightarrow>
                        if \<not> isFinite residualHi \<or> strictEq (js_sign residualHi) (js_sign residualLo)
                        then Some (Fin (- 1))
                        else refineLoop delta 0 (dbl 0) maxR ((dbl 0 + maxR) / Fin 2))))
     \<and> (\<forall>maxR h. upperBoundLoop delta residualLo 0 (dbl 0) residualLo = Some (Fell maxR h)
          \<longrightarrow> (\<exists>j. 0 < j \<and> j \<le> MAXITERATIONS \<and> maxR = dbl j \<and> delta (dbl j) = Some h)
              \<and> (\<not> isFinite h \<or> strictEq (js_sign h) (js_sign residualLo)
                  \<longrightarrow> columnSolver feedRate xFeed xDistillate xBottoms pressure feedTray totalTrays
                        light heavy = Some (Fin (- 1))))
     \<and> ((\<forall>j. 0 < j \<and> j \<le> MAXITERATIONS \<longrightarrow>
            (\<exists>h. delta (dbl j) = Some h
               \<and> (\<not> isFinite h \<or> (\<not> \<bar>h\<bar> < TOL \<and> strictEq (js_sign h) (js_sign residualLo)))))
          \<longrightarrow> (\<exists>h. delta (dbl MAXITERATIONS) = Some h
                 \<and> upperBoundLoop delta residualLo 0 (dbl 0) residualLo
                    = Some (Fell (dbl MAXITERATIONS) h))
              \<and> columnSolver feedRate xFeed xDistillate xBottoms pressure feedTray totalTrays
                  light heavy = Some (Fin (- 1)))"
proof -
  define minR where "minR = js_max (Fin 0.00000001) m"
  define finish where "finish = (\<lambda>exit. case exit of
                      Return r \<Rightarrow> Some r
                    | Fell maxR residualHi \<Rightarrow>
                        if \<not> isFinite residualHi \<or> strictEq (js_sign residualHi) (js_sign residualLo)
                        then Some (Fin (- 1))
                        else refineLoop delta 0 minR maxR ((minR + maxR) / Fin 2))"
  have d0: "dbl 0 = minR" by (simp add: assms(3) minR_def)
  have dj: "dbl j = ((\<lambda>r. r * Fin 2) ^^ j) minR" for j by (simp add: assms(3) minR_def)
  have dS: "dbl (Suc j) = dbl j * Fin 2" for j by (simp add: assms(3))
  have lo: "delta minR = Some residualLo" using assms(4) d0 by simp
  have cs: "columnSolver feedRate xFeed xDistillate xBottoms pressure feedTray totalTrays light heavy
      = upperBoundLoop delta residualLo 0 minR residualLo \<bind> finish"
    using assms(1,5) lo unfolding columnSolver_def Let_def finish_def assms(2) minR_def
    by simp
  have one: "columnSolver feedRate xFeed xDistillate xBottoms pressure feedTray totalTrays light heavy
              = (if isFinite h \<and> \<bar>h\<bar> < TOL then Some (dbl (Suc n))
                 else if isFinite h \<and> \<not> strictEq (js_sign h) (js_sign residualLo)
                   then refineLoop delta 0 minR (dbl (Suc n)) ((minR + dbl (Suc n)) / Fin 2)
                 else upperBoundLoop delta residualLo (Suc n) (dbl (Suc n)) h \<bind> finish)"
    if n: "n < MAXITERATIONS"
      and skip: "\<forall>j. 0 < j \<and> j \<le> n \<longrightarrow> (\<exists>h'. delta (dbl j) = Some h' \<and> \<not> isFinite h')"
      and h: "delta (dbl (Suc n)) = Some h" for n h
  proof -
    have skipped: "\<forall>j. 0 < j \<and> j \<le> n \<longrightarrow>
        (\<exists>h'. delta (((\<lambda>r. r * Fin 2) ^^ j) minR) = Some h' \<and> \<not> isFinite h')"
      using skip by (simp add: dj)
    have "upperBoundLoop delta residualLo 0 (((\<lambda>r. r * Fin 2) ^^ 0) minR) residualLo
        = upperBoundLoop delta residualLo n (((\<lambda>r. r * Fin 2) ^^ n) minR) residualLo"
      by (rule upperBoundLoop_skip [OF skipped _ n]) simp
    then have "upperBoundLoop delta residualLo 0 minR residualLo
        = upperBoundLoop delta residualLo n (dbl n) residualLo"
      by (simp add: dj)
    also have "\<dots> = (if \<not> isFinite h then upperBoundLoop delta residualLo (Suc n) (dbl (Suc n)) h
      else if \<bar>h\<bar> < TOL then Some (Return (dbl (Suc n)))
      else if \<not> strictEq (js_sign h) (js_sign residualLo) then Some (Fell (dbl (Suc n)) h)
      else upperBoundLoop delta residualLo (Suc n) (dbl (Suc n)) h)"
      unfolding dS
      by (rule upperBoundLoop_step [where delta = delta and maxR = "dbl n", OF n h [unfolded dS]])
    finally show ?thesis unfolding cs by (simp add: finish_def)
  qed
  have two: "(\<exists>j. 0 < j \<and> j \<le> MAXITERATIONS \<and> maxR = dbl j \<and> delta (dbl j) = Some h)
       \<and> (\<not> isFinite h \<or> strictEq (js_sign h) (js_sign residualLo)
            \<longrightarrow> columnSolver feedRate xFeed xDistillate xBottoms pressure feedTray totalTrays
                        light heavy = Some (Fin (- 1)))"
    if fell: "upperBoundLoop delta residualLo 0 minR residualLo = Some (Fell maxR h)" for maxR h
  proof -
    have pos: "0 < MAXITERATIONS" by (simp add: MAXITERATIONS_def)
    have "upperBoundLoop delta residualLo 0 (((\<lambda>r. r * Fin 2) ^^ 0) minR) residualLo = Some (Fell maxR h)"
      using fell by simp
    from upperBoundLoop_Fell [OF this pos] obtain j where
      "0 < j" "j \<le> MAXITERATIONS" "maxR = dbl j" "delta maxR = Some h"
      unfolding dj by blast
    then have "0 < j \<and> j \<le> MAXITERATIONS \<and> maxR = dbl j \<and> delta (dbl j) = Some h" by simp
    then have "\<exists>j. 0 < j \<and> j \<le> MAXITERATIONS \<and> maxR = dbl j \<and> delta (dbl j) = Some h" ..
    then show ?thesis unfolding cs fell by (simp add: finish_def)
  qed
  have three: "(\<exists>h. delta (dbl MAXITERATIONS) = Some h
                 \<and> upperBoundLoop delta residualLo 0 minR residualLo
                    = Some (Fell (dbl MAXITERATIONS) h))
              \<and> columnSolver feedRate xFeed xDistillate xBottoms pressure feedTray totalTrays
                  light heavy = Some (Fin (- 1))"
    if all: "\<forall>j. 0 < j \<and> j \<le> MAXITERATIONS \<longrightarrow>
            (\<exists>h. delta (dbl j) = Some h
               \<and> (\<not> isFinite h \<or> (\<not> \<bar>h\<bar> < TOL \<and> strictEq (js_sign h) (js_sign residualLo))))"
  proof -
    have pos: "0 < MAXITERATIONS" by (simp add: MAXITERATIONS_def)
    from upperBoundLoop_exhausted_residual [where k = 0 and rInit = minR and delta = delta and lo = residualLo
        and hi = residualLo, OF all [unfolded dj] pos]
    obtain h where "delta (dbl MAXITERATIONS) = Some h"
      and u: "upperBoundLoop delta residualLo 0 minR residualLo = Some (Fell (dbl MAXITERATIONS) h)"
      and s: "\<not> isFinite h \<or> strictEq (js_sign h) (js_sign residualLo)"
      unfolding dj by auto
    then show ?thesis unfolding cs by (auto simp add: finish_def)
  qed
  show ?thesis
    unfolding d0 using one two three unfolding finish_def by blast
qed

theorem columnSolver_upper_bound_search_witness:
  "minimumRefluxRatio sampleXF sampleXD samplePressure sampleLight sampleHeavy = Some (Fin (10 / 818181))
   \<and> \<not> \<bar>NaN\<bar> < TOL
   \<and> 2 < MAXITERATIONS
   \<and> (\<forall>j. feedTrayDelta (((\<lambda>r. r * Fin 2) ^^ j) (js_max (Fin 0.00000001) (Fin (10 / 818181)))) (Fin 0)
          sampleXF sampleXD sampleXB samplePressure 1 1 sampleLight sampleHeavy = Some NaN)
   \<and> \<not> isFinite NaN
   \<and> columnSolver (Fin 0) sampleXF sampleXD sampleXB samplePressure 1 1 sampleLight sampleHeavy
      = upperBoundLoop
          (\<lambda>r. feedTrayDelta r (Fin 0) sampleXF sampleXD sampleXB samplePressure 1 1 sampleLight sampleHeavy)
          NaN 3 (((\<lambda>r. r * Fin 2) ^^ 3) (js_max (Fin 0.00000001) (Fin (10 / 818181)))) NaN
        \<bind> (\<lambda>exit. case exit of
                 Return r \<Rightarrow> Some r
               | Fell maxR residualHi \<Rightarrow>
                   if \<not> isFinite residualHi \<or> strictEq (js_sign residualHi) (js_sign NaN)
                   then Some (Fin (- 1))
                   else refineLoop
                     (\<lambda>r. feedTrayDelta r (Fin 0) sampleXF sampleXD sampleXB samplePressure 1 1
                            sampleLight sampleHeavy)
                     0 (js_max (Fin 0.00000001) (Fin (10 / 818181))) maxR
                     ((js_max (Fin 0.00000001) (Fin (10 / 818181)) + maxR) / Fin 2))
   \<and> upperBoundLoop
        (\<lambda>r. feedTrayDelta r (Fin 0) sampleXF sampleXD sampleXB samplePressure 1 1 sampleLight sampleHeavy)
        NaN 0 (js_max (Fin 0.00000001) (Fin (10 / 818181))) NaN
      = Some (Fell (((\<lambda>r. r * Fin 2) ^^ MAXITERATIONS) (js_max (Fin 0.00000001) (Fin (10 / 818181)))) NaN)
   \<and> columnSolver (Fin 0) sampleXF sampleXD sampleXB samplePressure 1 1 sampleLight sampleHeavy
      = Some (Fin (- 1))"
proof -
  define delta where "delta = (\<lambda>r. feedTrayDelta r (Fin 0) sampleXF sampleXD sampleXB samplePressure 1 1
     sampleLight sampleHeavy)"
  define dbl where "dbl = (\<lambda>j. ((\<lambda>r. r * Fin 2) ^^ j) (js_max (Fin 0.00000001) (Fin (10 / 818181))))"
  have d: "delta r = Some NaN" for r
    unfolding delta_def by (rule sample_feedTrayDelta_zero_feed)
  have tol: "\<not> \<bar>NaN\<bar> < TOL" by simp
  note search = columnSolver_upper_bound_search [OF sample_minimumRefluxRatio delta_def dbl_def d tol]
  have two: "2 < MAXITERATIONS" by (simp add: MAXITERATIONS_def)
  have skip: "\<forall>j. 0 < j \<and> j \<le> 2 \<longrightarrow> (\<exists>h'. delta (dbl j) = Some h' \<and> \<not> isFinite h')"
    using d by simp
  have all: "\<forall>j. 0 < j \<and> j \<le> MAXITERATIONS \<longrightarrow>
            (\<exists>h. delta (dbl j) = Some h
               \<and> (\<not> isFinite h \<or> (\<not> \<bar>h\<bar> < TOL \<and> strictEq (js_sign h) (js_sign NaN))))"
    using d by simp
  from search all obtain h where "delta (dbl MAXITERATIONS) = Some h"
    and fell0: "upperBoundLoop delta NaN 0 (dbl 0) NaN = Some (Fell (dbl MAXITERATIONS) h)"
    and solver: "columnSolver (Fin 0) sampleXF sampleXD sampleXB samplePressure 1 1 sampleLight sampleHeavy
      = Some (Fin (- 1))"
    by blast
  have d0: "dbl 0 = js_max (Fin 0.00000001) (Fin (10 / 818181))"
    unfolding dbl_def by (simp only: funpow_0)
  have "h = NaN" using \<open>delta (dbl MAXITERATIONS) = Some h\<close> d by simp
  with fell0 have fell: "upperBoundLoop delta NaN 0 (dbl 0) NaN = Some (Fell (dbl MAXITERATIONS) NaN)"
    by simp
  from fell0 search have "\<not> isFinite h \<or> strictEq (js_sign h) (js_sign NaN)
     \<longrightarrow> columnSolver (Fin 0) sampleXF sampleXD sampleXB samplePressure 1 1 sampleLight sampleHeavy
      = Some (Fin (- 1))"
    by blast
  from search two skip d [of "dbl (Suc 2)"]
  have "columnSolver (Fin 0) sampleXF sampleXD sampleXB samplePressure 1 1 sampleLight sampleHeavy
      = (if isFinite NaN \<and> \<bar>NaN\<bar> < TOL then Some (dbl (Suc 2))
                 else if isFinite NaN \<and> \<not> strictEq (js_sign NaN) (js_sign NaN)
                   then refineLoop delta 0 (dbl 0) (dbl (Suc 2)) ((dbl 0 + dbl (Suc 2)) / Fin 2)
                 else upperBoundLoop delta NaN (Suc 2) (dbl (Suc 2)) NaN \<bind>
                   (\<lambda>exit. case exit of
                      Return r \<Rightarrow> Some r
                    | Fell maxR residualHi \<Rightarrow>
                        if \<not> isFinite residualHi \<or> strictEq (js_sign residualHi) (js_sign NaN)
                        then Some (Fin (- 1))
                        else refineLoop delta 0 (dbl 0) maxR ((dbl 0 + maxR) / Fin 2)))"
    by blast
  moreover have "\<not> (isFinite NaN \<and> \<bar>NaN\<bar> < TOL)"
    and "\<not> (isFinite NaN \<and> \<not> strictEq (js_sign NaN) (js_sign NaN))"
    and "Suc 2 = 3"
    by simp_all
  ultimately have next3: "columnSolver (Fin 0) sampleXF sampleXD sampleXB samplePressure 1 1 sampleLight sampleHeavy
      = upperBoundLoop delta NaN 3 (dbl 3) NaN
        \<bind> (\<lambda>exit. case exit of
                 Return r \<Rightarrow> Some r
               | Fell maxR residualHi \<Rightarrow>
                   if \<not> isFinite residualHi \<or> strictEq (js_sign residualHi) (js_sign NaN)
                   then Some (Fin (- 1))
                   else refineLoop delta 0 (dbl 0) maxR ((dbl 0 + maxR) / Fin 2))"
    by (simp only: if_False)
  note n3 = next3 [unfolded d0, unfolded delta_def dbl_def]
    and f = fell [unfolded d0, unfolded delta_def dbl_def]
  show ?thesis
  proof (intro conjI)
    show "minimumRefluxRatio sampleXF sampleXD samplePressure sampleLight sampleHeavy
        = Some (Fin (10 / 818181))"
      by (rule sample_minimumRefluxRatio)
    show "\<not> \<bar>NaN\<bar> < TOL" by (rule tol)
    show "2 < MAXITERATIONS" by (rule two)
    show "\<forall>j. feedTrayDelta (((\<lambda>r. r * Fin 2) ^^ j) (js_max (Fin 0.00000001) (Fin (10 / 818181)))) (Fin 0)
          sampleXF sampleXD sampleXB samplePressure 1 1 sampleLight sampleHeavy = Some NaN"
      by (intro allI sample_feedTrayDelta_zero_feed)
    show "\<not> isFinite NaN" by simp
  qed (rule n3 f solver)+
qed

subsection \<open>Tray data\<close>

lemma arraySet_length:
  "0 \<le> idx \<Longrightarrow> length (arraySet trays idx v) = max (length trays) (nat idx + 1)"
  by (simp add: arraySet_def)

lemma arraySet_same:
  "0 \<le> idx \<Longrightarrow> arraySet trays idx v ! nat idx = Some v"
  by (simp add: arraySet_def nth_append)

lemma arraySet_other:
  "k < length trays \<Longrightarrow> k \<noteq> nat idx \<Longrightarrow> arraySet trays idx v ! k = trays ! k"
  by (simp add: arraySet_def nth_append)

lemma rectifyingTrays_shape:
  assumes "rectifyingTrays i r xD p ft s l h trays liq = Some trays'"
    and "1 \<le> i" and "nat ft \<le> length trays"
  shows "length trays' = length trays
         \<and> (\<forall>j. i \<le> j \<and> j \<le> ft \<longrightarrow> (\<exists>t. trays' ! nat (j - 1) = Some t \<and> trayNumber t = j))
         \<and> (\<forall>k < length trays. k < nat (i - 1) \<or> nat ft \<le> k \<longrightarrow> trays' ! k = trays ! k)"
  using assms
proof (induction i r xD p ft s l h trays liq rule: rectifyingTrays.induct)
  case (1 i r xD p ft s l h trays liq)
  show ?case
  proof (cases "i \<le> ft")
    case False
    with "1.prems" show ?thesis by (auto simp add: rectifyingTrays.simps [of i])
  next
    case True
    define vap where "vap = rectifyingOperatingLine r xD liq"
    from "1.prems"(1) True obtain liq' temp where
      liq': "liqMolFraction p vap l h = Some liq'"
      and temp: "equilibriumTemperatureFromX p liq' l h = Some temp"
      and rec: "rectifyingTrays (i + 1) r xD p ft s l h
                  (arraySet trays (i - 1) (createTrayObject i temp liq' vap r s)) liq' = Some trays'"
      by (auto simp add: rectifyingTrays.simps [of i] vap_def Let_def split: option.splits)
    define tr where "tr = createTrayObject i temp liq' vap r s"
    define mid where "mid = arraySet trays (i - 1) tr"
    have idx: "0 \<le> i - 1" "nat (i - 1) < length trays" using "1.prems"(2,3) True by auto
    have len: "length mid = length trays"
      using idx by (simp add: mid_def arraySet_length)
    have IH: "length trays' = length mid
         \<and> (\<forall>j. i + 1 \<le> j \<and> j \<le> ft \<longrightarrow> (\<exists>t. trays' ! nat (j - 1) = Some t \<and> trayNumber t = j))
         \<and> (\<forall>k < length mid. k < nat (i + 1 - 1) \<or> nat ft \<le> k \<longrightarrow> trays' ! k = mid ! k)"
      using "1.IH" [OF True vap_def liq' temp] rec "1.prems"(2,3) len
      unfolding mid_def tr_def vap_def by simp
    have here: "trays' ! nat (i - 1) = Some tr"
      using IH idx len arraySet_same [of "i - 1" trays tr] "1.prems"(2)
      by (simp add: mid_def nat_less_iff)
    have "\<exists>t. trays' ! nat (j - 1) = Some t \<and> trayNumber t = j" if "i \<le> j" "j \<le> ft" for j
    proof (cases "j = i")
      case True
      with here show ?thesis by (simp add: tr_def createTrayObject_def)
    next
      case False
      with that IH show ?thesis by simp
    qed
    moreover have "trays' ! k = trays ! k" if "k < length trays" "k < nat (i - 1) \<or> nat ft \<le> k" for k
    proof -
      have "k \<noteq> nat (i - 1)" using that True "1.prems"(2) by auto
      then have "mid ! k = trays ! k" using that(1) by (simp add: mid_def arraySet_other)
      moreover have "trays' ! k = mid ! k" using IH that len "1.prems"(2) by auto
      ultimately show ?thesis by simp
    qed
    ultimately show ?thesis using IH len by simp
  qed
qed


lemma strippingTrays_shape:
  assumes "strippingTrays i r xB p ft s l h trays vap = Some trays'"
    and "0 \<le> ft" and "nat i \<le> length trays"
  shows "length trays' = length trays
         \<and> (\<forall>j. ft < j \<and> j \<le> i \<longrightarrow> (\<exists>t. trays' ! nat (j - 1) = Some t \<and> trayNumber t = j))
         \<and> (\<forall>k < length trays. k < nat ft \<or> nat i \<le> k \<longrightarrow> trays' ! k = trays ! k)"
  using assms
proof (induction i r xB p ft s l h trays vap rule: strippingTrays.induct)
  case (1 i r xB p ft s l h trays vap)
  show ?case
  proof (cases "ft < i")
    case False
    with "1.prems" show ?thesis by (auto simp add: strippingTrays.simps [of i])
  next
    case True
    define liq where "liq = strippingOperatingLine s xB vap"
    from "1.prems"(1) True obtain vap' temp where
      vap': "vapMolFraction p liq l h = Some vap'"
      and temp: "equilibriumTemperatureFromX p liq l h = Some temp"
      and rec: "strippingTrays (i - 1) r xB p ft s l h
                  (arraySet trays (i - 1) (createTrayObject i temp liq vap' r s)) vap' = Some trays'"
      by (auto simp add: strippingTrays.simps [of i] liq_def Let_def split: option.splits)
    define tr where "tr = createTrayObject i temp liq vap' r s"
    define mid where "mid = arraySet trays (i - 1) tr"
    have idx: "0 \<le> i - 1" "nat (i - 1) < length trays" using "1.prems"(2,3) True by auto
    have len: "length mid = length trays"
      using idx by (simp add: mid_def arraySet_length)
    have IH: "length trays' = length mid
         \<and> (\<forall>j. ft < j \<and> j \<le> i - 1 \<longrightarrow> (\<exists>t. trays' ! nat (j - 1) = Some t \<and> trayNumber t = j))
         \<and> (\<forall>k < length mid. k < nat ft \<or> nat (i - 1) \<le> k \<longrightarrow> trays' ! k = mid ! k)"
      using "1.IH" [OF True liq_def vap' temp] rec "1.prems"(2,3) len
      unfolding mid_def tr_def liq_def by simp
    have here: "trays' ! nat (i - 1) = Some tr"
      using IH idx len arraySet_same [of "i - 1" trays tr]
      by (simp add: mid_def)
    have "\<exists>t. trays' ! nat (j - 1) = Some t \<and> trayNumber t = j" if "ft < j" "j \<le> i" for j
    proof (cases "j = i")
      case True
      with here show ?thesis by (simp add: tr_def createTrayObject_def)
    next
      case False
      with that IH show ?thesis by simp
    qed
    moreover have "trays' ! k = trays ! k" if "k < length trays" "k < nat ft \<or> nat i \<le> k" for k
    proof -
      have "k \<noteq> nat (i - 1)" using that True "1.prems"(2) by auto
      then have "mid ! k = trays ! k" using that(1) by (simp add: mid_def arraySet_other)
      moreover have "trays' ! k = mid ! k" using IH that len "1.prems"(2) by auto
      ultimately show ?thesis by simp
    qed
    ultimately show ?thesis using IH len by simp
  qed
qed








subsection \<open>Bisection on the equilibrium temperature\<close>

lemma bisectionLoop_iter:
  "loopIter residual n (maxT, minT, g) = Some (maxT', minT', g') \<Longrightarrow>
     bisectionLoop residual maxT minT g = bisectionLoop residual maxT' minT' g'"
proof (induction n arbitrary: maxT minT g)
  case 0
  then show ?case by simp
next
  case (Suc n)
  from Suc.prems have big: "TOL < \<bar>residual g\<bar>"
    by (simp split: if_splits)
  show ?case
  proof (cases "Fin 0 < residual g")
    case True
    with Suc.prems big have "loopIter residual n (g, minT, (minT + g) / Fin 2) = Some (maxT', minT', g')"
      by (simp add: bisectionStep_def)
    from Suc.IH [OF this] True big show ?thesis
      by (subst bisectionLoop.simps) simp
  next
    case False
    with Suc.prems big have "loopIter residual n (maxT, g, (maxT + g) / Fin 2) = Some (maxT', minT', g')"
      by (simp add: bisectionStep_def)
    from Suc.IH [OF this] False big show ?thesis
      by (subst bisectionLoop.simps) simp
  qed
qed

lemma loopIter_bracket:
  assumes "loopIter residual n (Fin lo, Fin hi, Fin ((lo + hi) / 2)) = Some (maxT, minT, g)"
    and "lo < hi"
  shows "\<exists>lo' hi'. maxT = Fin lo' \<and> minT = Fin hi' \<and> g = Fin ((lo' + hi') / 2) \<and> lo' < hi'"
  using assms
proof (induction n arbitrary: lo hi)
  case 0
  then show ?case by auto
next
  case (Suc n)
  define m where "m = (lo + hi) / 2"
  have m: "lo < m" "m < hi" using Suc.prems(2) by (simp_all add: m_def)
  from Suc.prems(1) have big: "TOL < \<bar>residual (Fin m)\<bar>"
    by (simp add: m_def split: if_splits)
  show ?case
  proof (cases "Fin 0 < residual (Fin m)")
    case True
    with Suc.prems(1) big
    have "loopIter residual n (Fin m, Fin hi, Fin ((m + hi) / 2)) = Some (maxT, minT, g)"
      by (simp add: bisectionStep_def m_def add.commute)
    from Suc.IH [OF this m(2)] show ?thesis .
  next
    case False
    with Suc.prems(1) big
    have "loopIter residual n (Fin lo, Fin m, Fin ((lo + m) / 2)) = Some (maxT, minT, g)"
      by (simp add: bisectionStep_def m_def)
    from Suc.IH [OF this m(1)] show ?thesis .
  qed
qed

lemma powr_ten_ge:
  assumes "0 \<le> (e::real)"
  shows "1 + e \<le> 10 powr e"
proof -
  have "exp 1 \<le> (10::real)" using exp_le by simp
  then have "ln (exp 1) \<le> ln (10::real)" by (subst ln_le_cancel_iff) simp_all
  then have "1 \<le> ln (10::real)" by simp
  then have "e \<le> e * ln 10" using assms by (simp add: mult_le_cancel_left1)
  then have "1 + e \<le> 1 + e * ln 10" by simp
  also have "\<dots> \<le> exp (e * ln 10)" by (rule exp_ge_add_one_self)
  also have "\<dots> = 10 powr e" by (simp add: powr_def)
  finally show ?thesis .
qed

lemma propane_butane_boilingPoints:
  "boilingPointTemperature samplePressure propaneConstants
     = Fin ((1149.36 / 4.53678 - 24.906 - 273.15) * 9 / 5 + 32)"
  "boilingPointTemperature samplePressure butaneConstants
     = Fin ((1175.581 / 4.35576 + 2.071 - 273.15) * 9 / 5 + 32)"
  by (simp_all add: boilingPointTemperature_def samplePressure_def propaneConstants_def
        butaneConstants_def minus_jsnum_def)

lemma propane_butane_order:
  "(1149.36 / 4.53678 - 24.906 - 273.15) * 9 / 5 + 32
     < ((1175.581 / 4.35576 + 2.071 - 273.15) * 9 / 5 + 32 :: real)"
  by simp


lemma propane_butane_first_residual:
  fixes tg :: real
  defines "tg \<equiv> ((1149.36 / 4.53678 - 24.906 - 273.15) * 9 / 5 + 32
                  + ((1175.581 / 4.35576 + 2.071 - 273.15) * 9 / 5 + 32)) / 2"
  shows "\<exists>r. binaryequilibriumEquationFromX (Fin tg) samplePressure (Fin 1)
                propaneConstants butaneConstants = Fin r \<and> r < - 0.001"
proof -
  define e where "e = 4.53678 - 1149.36 / ((tg - 32) * 5 / 9 + 273.15 + 24.906)"
  define eh where "eh = 4.35576 - 1175.581 / ((tg - 32) * 5 / 9 + 273.15 + (- 2.071))"
  have dl: "(tg - 32) * 5 / 9 + 273.15 + 24.906 \<noteq> 0"
    and dh: "(tg - 32) * 5 / 9 + 273.15 + (- 2.071) \<noteq> 0"
    unfolding tg_def by simp_all
  have e: "3 / 10 \<le> e" unfolding e_def tg_def by simp
  have vl: "vaporPressure (Fin tg) propaneConstants = Fin (10 powr e * 14.503773773)"
    unfolding e_def by (rule vaporPressure_Fin [OF _ _ _ dl]) (simp_all add: propaneConstants_def)
  have vh: "vaporPressure (Fin tg) butaneConstants = Fin (10 powr eh * 14.503773773)"
    unfolding eh_def by (rule vaporPressure_Fin [OF _ _ _ dh]) (simp_all add: butaneConstants_def)
  have r: "binaryequilibriumEquationFromX (Fin tg) samplePressure (Fin 1) propaneConstants butaneConstants
             = Fin (14.503773773 - 10 powr e * 14.503773773)"
    unfolding binaryequilibriumEquationFromX_def Let_def vl vh
    by (simp add: samplePressure_def minus_jsnum_def)
  have "1 + e \<le> 10 powr e" using e by (intro powr_ten_ge) simp
  then have "13 / 10 \<le> 10 powr e" using e by simp
  then have "14.503773773 - 10 powr e * 14.503773773 < (- 0.001 :: real)" by simp
  with r show ?thesis by blast
qed

lemma propane_butane_first_step:
  "\<exists>a b r. boilingPointTemperature samplePressure propaneConstants = Fin a
     \<and> boilingPointTemperature samplePressure butaneConstants = Fin b
     \<and> a < b
     \<and> binaryequilibriumEquationFromX (Fin ((a + b) / 2)) samplePressure (Fin 1)
           propaneConstants butaneConstants = Fin r
     \<and> r < - 0.001"
  unfolding propane_butane_boilingPoints
  using propane_butane_first_residual propane_butane_order by blast

lemma propane_butane_first_residual_heavy:
  fixes tg :: real
  defines "tg \<equiv> ((1149.36 / 4.53678 - 24.906 - 273.15) * 9 / 5 + 32
                  + ((1175.581 / 4.35576 + 2.071 - 273.15) * 9 / 5 + 32)) / 2"
  shows "\<exists>r. binaryequilibriumEquationFromX (Fin tg) samplePressure (Fin 0)
                propaneConstants butaneConstants = Fin r \<and> 0.001 < r"
proof -
  define e where "e = 4.53678 - 1149.36 / ((tg - 32) * 5 / 9 + 273.15 + 24.906)"
  define eh where "eh = 4.35576 - 1175.581 / ((tg - 32) * 5 / 9 + 273.15 + (- 2.071))"
  have dl: "(tg - 32) * 5 / 9 + 273.15 + 24.906 \<noteq> 0"
    and dh: "(tg - 32) * 5 / 9 + 273.15 + (- 2.071) \<noteq> 0"
    unfolding tg_def by simp_all
  have eh: "3 / 10 \<le> - eh" unfolding eh_def tg_def by simp
  have vl: "vaporPressure (Fin tg) propaneConstants = Fin (10 powr e * 14.503773773)"
    unfolding e_def by (rule vaporPressure_Fin [OF _ _ _ dl]) (simp_all add: propaneConstants_def)
  have vh: "vaporPressure (Fin tg) butaneConstants = Fin (10 powr eh * 14.503773773)"
    unfolding eh_def by (rule vaporPressure_Fin [OF _ _ _ dh]) (simp_all add: butaneConstants_def)
  have r: "binaryequilibriumEquationFromX (Fin tg) samplePressure (Fin 0) propaneConstants butaneConstants
             = Fin (14.503773773 - 10 powr eh * 14.503773773)"
    unfolding binaryequilibriumEquationFromX_def Let_def vl vh
    by (simp add: samplePressure_def minus_jsnum_def)
  have "1 + (- eh) \<le> 10 powr (- eh)" using eh by (intro powr_ten_ge) simp
  then have "13 / 10 \<le> 10 powr (- eh)" using eh by simp
  then have "13 / 10 \<le> 1 / 10 powr eh" by (simp only: powr_minus_divide)
  moreover have "0 < 10 powr eh" by simp
  ultimately have "13 / 10 * 10 powr eh \<le> 1"
    by (simp only: pos_le_divide_eq)
  then have "10 powr eh \<le> 10 / 13" by simp
  then have "(0.001 :: real) < 14.503773773 - 10 powr eh * 14.503773773" by simp
  with r show ?thesis by blast
qed

text \<open>
  C3 (as stated): in the bisection loops of \<open>equilibriumTemperatureFromX\<close> and
  \<open>equilibriumTemperatureFromY\<close>, a positive residual makes the next guess smaller and a
  negative one makes it larger. For propane and butane at 1 bar and a liquid of pure
  propane the first residual is negative, of magnitude above \<open>TOL\<close>, and the next guess is
  smaller than the first: \<open>maxT\<close>, the boiling point of the light compound, is the lower
  end of the bracket.
\<close>

theorem bisection_direction_counterexample:
  "TOL < \<bar>binaryequilibriumEquationFromX
            ((boilingPointTemperature samplePressure propaneConstants
               + boilingPointTemperature samplePressure butaneConstants) / Fin 2)
            samplePressure (Fin 1) propaneConstants butaneConstants\<bar>
   \<and> binaryequilibriumEquationFromX
         ((boilingPointTemperature samplePressure propaneConstants
            + boilingPointTemperature samplePressure butaneConstants) / Fin 2)
         samplePressure (Fin 1) propaneConstants butaneConstants < Fin 0
   \<and> snd (snd (bisectionStep
         (binaryequilibriumEquationFromX
            ((boilingPointTemperature samplePressure propaneConstants
               + boilingPointTemperature samplePressure butaneConstants) / Fin 2)
            samplePressure (Fin 1) propaneConstants butaneConstants)
         (boilingPointTemperature samplePressure propaneConstants,
          boilingPointTemperature samplePressure butaneConstants,
          (boilingPointTemperature samplePressure propaneConstants
             + boilingPointTemperature samplePressure butaneConstants) / Fin 2)))
     < (boilingPointTemperature samplePressure propaneConstants
          + boilingPointTemperature samplePressure butaneConstants) / Fin 2"
proof -
  obtain a b r where bp: "boilingPointTemperature samplePressure propaneConstants = Fin a"
     "boilingPointTemperature samplePressure butaneConstants = Fin b"
     and ab: "a < b"
     and r: "binaryequilibriumEquationFromX (Fin ((a + b) / 2)) samplePressure (Fin 1)
           propaneConstants butaneConstants = Fin r"
     and neg: "r < - 0.001"
    using propane_butane_first_step by blast
  have g: "(Fin a + Fin b) / Fin 2 = Fin ((a + b) / 2)" by simp
  show ?thesis
    unfolding bp g r using neg ab
    by (simp add: bisectionStep_def TOL_def)
qed


text \<open>
  C3 (amended): when the light compound boils below the heavy one at the given pressure
  (both boiling points finite), at every iteration of the bisection loop of
  \<open>equilibriumTemperatureFromX\<close> and of \<open>equilibriumTemperatureFromY\<close> where the
  residual at the current guess has magnitude above \<open>TOL\<close>: if the residual is positive
  the next guess is strictly larger than the current guess, and if the residual is
  negative the next guess is strictly smaller.
\<close>

theorem bisection_direction:
  assumes "residual = (\<lambda>t. binaryequilibriumEquationFromX t pressure molFrac light heavy)
           \<or> residual = (\<lambda>t. binaryequilibriumEquationFromY t pressure molFrac light heavy)"
    and "boilingPointTemperature pressure light = Fin a"
    and "boilingPointTemperature pressure heavy = Fin b"
    and "a < b"
    and "loopIter residual n
           (boilingPointTemperature pressure light, boilingPointTemperature pressure heavy,
            (boilingPointTemperature pressure light + boilingPointTemperature pressure heavy) / Fin 2)
         = Some (maxT, minT, g)"
    and "TOL < \<bar>residual g\<bar>"
    and "bisectionStep (residual g) (maxT, minT, g) = (maxT', minT', g')"
  shows "(Fin 0 < residual g \<longrightarrow> g < g') \<and> (residual g < Fin 0 \<longrightarrow> g' < g)"
proof -
  have "loopIter residual n (Fin a, Fin b, Fin ((a + b) / 2)) = Some (maxT, minT, g)"
    using assms(5) unfolding assms(2,3) by simp
  from loopIter_bracket [OF this assms(4)] obtain lo hi where
    s: "maxT = Fin lo" "minT = Fin hi" "g = Fin ((lo + hi) / 2)" "lo < hi"
    by blast
  have pos_not_neg: "\<not> Fin 0 < r" if "r < Fin 0" for r
    using that by (cases r) simp_all
  show ?thesis
    using assms(7) s pos_not_neg [of "residual g"]
    by (auto simp add: bisectionStep_def split: if_splits)
qed

theorem bisection_direction_witness:
  "Fin 0 < binaryequilibriumEquationFromX
         ((boilingPointTemperature samplePressure propaneConstants
            + boilingPointTemperature samplePressure butaneConstants) / Fin 2)
         samplePressure (Fin 0) propaneConstants butaneConstants
   \<and> (boilingPointTemperature samplePressure propaneConstants
          + boilingPointTemperature samplePressure butaneConstants) / Fin 2
     < snd (snd (bisectionStep
         (binaryequilibriumEquationFromX
            ((boilingPointTemperature samplePressure propaneConstants
               + boilingPointTemperature samplePressure butaneConstants) / Fin 2)
            samplePressure (Fin 0) propaneConstants butaneConstants)
         (boilingPointTemperature samplePressure propaneConstants,
          boilingPointTemperature samplePressure butaneConstants,
          (boilingPointTemperature samplePressure propaneConstants
             + boilingPointTemperature samplePressure butaneConstants) / Fin 2)))"
proof -
  define a :: real where "a = (1149.36 / 4.53678 - 24.906 - 273.15) * 9 / 5 + 32"
  define b :: real where "b = (1175.581 / 4.35576 + 2.071 - 273.15) * 9 / 5 + 32"
  have bp: "boilingPointTemperature samplePressure propaneConstants = Fin a"
    "boilingPointTemperature samplePressure butaneConstants = Fin b"
    unfolding a_def b_def by (rule propane_butane_boilingPoints)+
  have ab: "a < b" unfolding a_def b_def by (rule propane_butane_order)
  obtain r where r: "binaryequilibriumEquationFromX (Fin ((a + b) / 2)) samplePressure (Fin 0)
      propaneConstants butaneConstants = Fin r" and pos: "0.001 < r"
    using propane_butane_first_residual_heavy unfolding a_def b_def by blast
  have g: "(Fin a + Fin b) / Fin 2 = Fin ((a + b) / 2)" by simp
  obtain maxT' minT' g' where st: "bisectionStep (Fin r) (Fin a, Fin b, Fin ((a + b) / 2)) = (maxT', minT', g')"
    by (cases "bisectionStep (Fin r) (Fin a, Fin b, Fin ((a + b) / 2))")
  have "(Fin 0 < (\<lambda>t. binaryequilibriumEquationFromX t samplePressure (Fin 0) propaneConstants butaneConstants)
                   (Fin ((a + b) / 2)) \<longrightarrow> Fin ((a + b) / 2) < g')
        \<and> ((\<lambda>t. binaryequilibriumEquationFromX t samplePressure (Fin 0) propaneConstants butaneConstants)
                   (Fin ((a + b) / 2)) < Fin 0 \<longrightarrow> g' < Fin ((a + b) / 2))"
    using pos
    by (intro bisection_direction [of _ samplePressure "Fin 0" propaneConstants butaneConstants
          a b 0 "Fin a" "Fin b" "Fin ((a + b) / 2)" maxT' minT' g'])
       (simp_all add: bp ab r st TOL_def)
  then show ?thesis
    unfolding bp g r st using pos by simp
qed

subsection \<open>Termination of the equilibrium solves\<close>

lemma bisectionLoop_stuck_aux:
  assumes "bisectionLoop residual maxT minT g = Some y"
  shows "\<not> (TOL < \<bar>residual g\<bar> \<and> Fin 0 < residual g \<and> (minT + g) / Fin 2 = g)"
proof (rule bisectionLoop.raw_induct
    [where P = "\<lambda>residual maxT minT g y.
       \<not> (TOL < \<bar>residual g\<bar> \<and> Fin 0 < residual g \<and> (minT + g) / Fin 2 = g)", OF _ assms])
  fix loop :: "(jsnum \<Rightarrow> jsnum) \<Rightarrow> jsnum \<Rightarrow> jsnum \<Rightarrow> jsnum \<Rightarrow> jsnum option"
    and residual maxT minT g y
  assume IH: "\<And>residual maxT minT g y. loop residual maxT minT g = Some y \<Longrightarrow>
      \<not> (TOL < \<bar>residual g\<bar> \<and> Fin 0 < residual g \<and> (minT + g) / Fin 2 = g)"
    and body: "(let result = residual g
      in if TOL < \<bar>result\<bar>
         then if Fin 0 < result
              then loop residual g minT ((minT + g) / Fin 2)
              else loop residual maxT g ((maxT + g) / Fin 2)
         else Some g) = Some y"
  show "\<not> (TOL < \<bar>residual g\<bar> \<and> Fin 0 < residual g \<and> (minT + g) / Fin 2 = g)"
  proof
    assume c: "TOL < \<bar>residual g\<bar> \<and> Fin 0 < residual g \<and> (minT + g) / Fin 2 = g"
    then have big: "TOL < \<bar>residual g\<bar>" and pos: "Fin 0 < residual g"
      and same: "(minT + g) / Fin 2 = g"
      by blast+
    have "loop residual g minT ((minT + g) / Fin 2) = Some y"
      using body big pos by (simp add: Let_def)
    then have "loop residual g minT g = Some y" by (simp only: same)
    from IH [OF this] c show False by blast
  qed
qed

lemma bisectionLoop_stuck:
  assumes "TOL < \<bar>residual g\<bar>" and "Fin 0 < residual g" and "(minT + g) / Fin 2 = g"
  shows "bisectionLoop residual maxT minT g = None"
  using bisectionLoop_stuck_aux [of residual maxT minT g] assms
  by (cases "bisectionLoop residual maxT minT g") auto

lemma propane_limit_solve:
  "equilibriumTemperatureFromX (Fin (10 powr 4.53678 * 14.503773773)) (Fin 0)
     propaneConstants butaneConstants = None"
proof -
  define p :: real where "p = 10 powr 4.53678 * 14.503773773"
  have maxT: "boilingPointTemperature (Fin p) propaneConstants = PInf"
    by (simp add: boilingPointTemperature_def propaneConstants_def p_def minus_jsnum_def)
  obtain b where minT: "boilingPointTemperature (Fin p) butaneConstants = Fin b"
    by (simp add: boilingPointTemperature_def butaneConstants_def p_def minus_jsnum_def)
  have vl: "vaporPressure PInf propaneConstants = Fin p"
    by (simp add: vaporPressure_def propaneConstants_def p_def minus_jsnum_def)
  have vh: "vaporPressure PInf butaneConstants = Fin (10 powr 4.35576 * 14.503773773)"
    by (simp add: vaporPressure_def butaneConstants_def minus_jsnum_def)
  have r: "binaryequilibriumEquationFromX PInf (Fin p) (Fin 0) propaneConstants butaneConstants
             = Fin (p - 10 powr 4.35576 * 14.503773773)"
    unfolding binaryequilibriumEquationFromX_def Let_def vl vh
    by (simp add: minus_jsnum_def)
  have "(10::real) powr 4.53678 = 10 powr 4.35576 * 10 powr 0.18102"
    by (simp add: powr_add [symmetric])
  moreover have "1 + 0.18102 \<le> (10::real) powr 0.18102" by (rule powr_ten_ge) simp
  moreover have "(10::real) powr 0 \<le> 10 powr 4.35576" by (rule powr_mono) simp_all
  ultimately have "10 powr 4.35576 + 0.18 \<le> (10::real) powr 4.53678"
  proof -
    assume e: "(10::real) powr 4.53678 = 10 powr 4.35576 * 10 powr 0.18102"
      and g: "1 + 0.18102 \<le> (10::real) powr 0.18102"
      and o: "(10::real) powr 0 \<le> 10 powr 4.35576"
    have one: "1 \<le> (10::real) powr 4.35576" using o by simp
    have "10 powr 4.35576 + 0.18 \<le> 10 powr 4.35576 + 0.18 * (10::real) powr 4.35576"
      using one by simp
    also have "\<dots> \<le> 10 powr 4.35576 * (1 + 0.18102)" by (simp add: algebra_simps)
    also have "\<dots> \<le> 10 powr 4.35576 * 10 powr 0.18102"
      using g by (intro mult_left_mono) simp_all
    finally show ?thesis unfolding e .
  qed
  then have big: "0.001 < p - 10 powr 4.35576 * 14.503773773"
    unfolding p_def by simp
  show ?thesis
    unfolding equilibriumTemperatureFromX_def Let_def p_def [symmetric] maxT minT
    using big by (intro bisectionLoop_stuck) (simp_all add: r TOL_def)
qed

lemma interval_uniform_continuity:
  fixes F :: "real \<Rightarrow> real"
  assumes "a \<le> b" and cont: "\<And>t. a \<le> t \<Longrightarrow> t \<le> b \<Longrightarrow> isCont F t" and "0 < e"
  shows "\<exists>d>0. \<forall>u v. a \<le> u \<and> u \<le> b \<and> a \<le> v \<and> v \<le> b \<and> \<bar>u - v\<bar> < d \<longrightarrow> \<bar>F u - F v\<bar> < e"
proof -
  define P where "P = (\<lambda>x y. a \<le> x \<and> y \<le> b \<longrightarrow>
     (\<exists>d>0. \<forall>u v. x \<le> u \<and> u \<le> y \<and> x \<le> v \<and> v \<le> y \<and> \<bar>u - v\<bar> < d \<longrightarrow> \<bar>F u - F v\<bar> < e))"
  have near: "\<exists>d>0. \<forall>u. \<bar>u - t\<bar> < d \<longrightarrow> \<bar>F u - F t\<bar> < e / 2" if "a \<le> t" "t \<le> b" for t
  proof -
    have "isCont F t" using that by (rule cont)
    then have "\<forall>r>0. \<exists>s>0. \<forall>u. u \<noteq> t \<and> \<bar>u - t\<bar> < s \<longrightarrow> \<bar>F u - F t\<bar> < r"
      by (simp add: isCont_def LIM_def dist_real_def)
    then obtain s where "0 < s" and s: "\<forall>u. u \<noteq> t \<and> \<bar>u - t\<bar> < s \<longrightarrow> \<bar>F u - F t\<bar> < e / 2"
      using \<open>0 < e\<close> by (meson half_gt_zero)
    have "\<bar>F u - F t\<bar> < e / 2" if "\<bar>u - t\<bar> < s" for u
      using s that \<open>0 < e\<close> by (cases "u = t") auto
    with \<open>0 < s\<close> show ?thesis by blast
  qed
  have "P a b"
    using \<open>a \<le> b\<close>
  proof (induct rule: Bolzano)
    case (trans x y z)
    show ?case unfolding P_def
    proof (intro impI)
      assume xz: "a \<le> x \<and> z \<le> b"
      with trans have "a \<le> x \<and> y \<le> b" and "a \<le> y \<and> z \<le> b" by auto
      with trans(1,2) obtain d1 d2 where "0 < d1" "0 < d2"
        and d1: "\<And>u v. x \<le> u \<Longrightarrow> u \<le> y \<Longrightarrow> x \<le> v \<Longrightarrow> v \<le> y \<Longrightarrow> \<bar>u - v\<bar> < d1 \<Longrightarrow> \<bar>F u - F v\<bar> < e"
        and d2: "\<And>u v. y \<le> u \<Longrightarrow> u \<le> z \<Longrightarrow> y \<le> v \<Longrightarrow> v \<le> z \<Longrightarrow> \<bar>u - v\<bar> < d2 \<Longrightarrow> \<bar>F u - F v\<bar> < e"
        unfolding P_def by blast
      obtain d3 where "0 < d3" and d3: "\<And>u. \<bar>u - y\<bar> < d3 \<Longrightarrow> \<bar>F u - F y\<bar> < e / 2"
        using near [of y] xz trans(3,4) by auto
      define d where "d = min d1 (min d2 d3)"
      have "0 < d" using \<open>0 < d1\<close> \<open>0 < d2\<close> \<open>0 < d3\<close> by (simp add: d_def)
      moreover have "\<bar>F u - F v\<bar> < e"
        if uv: "x \<le> u" "u \<le> z" "x \<le> v" "v \<le> z" "\<bar>u - v\<bar> < d" for u v
      proof -
        consider "u \<le> y" "v \<le> y" | "y \<le> u" "y \<le> v" | "u \<le> y" "y \<le> v" | "v \<le> y" "y \<le> u"
          by linarith
        then show ?thesis
        proof cases
          case 1
          then show ?thesis using d1 uv by (simp add: d_def)
        next
          case 2
          then show ?thesis using d2 uv by (simp add: d_def)
        next
          case 3
          then have "\<bar>u - y\<bar> < d3" "\<bar>v - y\<bar> < d3" using uv(5) by (simp_all add: d_def)
          then have "\<bar>F u - F y\<bar> < e / 2" "\<bar>F v - F y\<bar> < e / 2" using d3 by blast+
          then show ?thesis by linarith
        next
          case 4
          then have "\<bar>u - y\<bar> < d3" "\<bar>v - y\<bar> < d3" using uv(5) by (simp_all add: d_def)
          then have "\<bar>F u - F y\<bar> < e / 2" "\<bar>F v - F y\<bar> < e / 2" using d3 by blast+
          then show ?thesis by linarith
        qed
      qed
      ultimately show "\<exists>d>0. \<forall>u v. x \<le> u \<and> u \<le> z \<and> x \<le> v \<and> v \<le> z \<and> \<bar>u - v\<bar> < d \<longrightarrow> \<bar>F u - F v\<bar> < e"
        by blast
    qed
  next
    case (local t)
    obtain d3 where "0 < d3" and d3: "\<And>u. \<bar>u - t\<bar> < d3 \<Longrightarrow> \<bar>F u - F t\<bar> < e / 2"
      using near [OF local] by auto
    have "P x y" if "x \<le> t" "t \<le> y" "y - x < d3" for x y
      unfolding P_def
    proof (intro impI exI [of _ 1] conjI allI)
      fix u v
      assume "x \<le> u \<and> u \<le> y \<and> x \<le> v \<and> v \<le> y \<and> \<bar>u - v\<bar> < 1"
      with that have "\<bar>u - t\<bar> < d3" "\<bar>v - t\<bar> < d3" by auto
      then have "\<bar>F u - F t\<bar> < e / 2" "\<bar>F v - F t\<bar> < e / 2" using d3 by blast+
      then show "\<bar>F u - F v\<bar> < e" by linarith
    qed simp
    with \<open>0 < d3\<close> show ?case by blast
  qed
  then show ?thesis using \<open>a \<le> b\<close> unfolding P_def by simp
qed

lemma bisectionLoop_converges:
  fixes F :: "real \<Rightarrow> real"
  assumes "a \<le> b"
    and cont: "\<And>t. a \<le> t \<Longrightarrow> t \<le> b \<Longrightarrow> isCont F t"
    and rep: "\<And>t. a \<le> t \<Longrightarrow> t \<le> b \<Longrightarrow> residual (Fin t) = Fin (F t)"
    and "0 \<le> F a" and "F b \<le> 0"
  shows "\<exists>t. bisectionLoop residual (Fin a) (Fin b) ((Fin a + Fin b) / Fin 2) = Some (Fin t)
            \<and> a \<le> t \<and> t \<le> b \<and> \<bar>F t\<bar> \<le> 0.001"
proof -
  obtain d where "0 < d"
    and d: "\<And>u v. a \<le> u \<Longrightarrow> u \<le> b \<Longrightarrow> a \<le> v \<Longrightarrow> v \<le> b \<Longrightarrow> \<bar>u - v\<bar> < d \<Longrightarrow> \<bar>F u - F v\<bar> < 0.001"
    using interval_uniform_continuity [OF assms(1) cont, of "0.001"] by auto
  obtain N :: nat where "(b - a) / d < 2 ^ N"
    using real_arch_pow [of 2 "(b - a) / d"] by auto
  then have N: "b - a < d * 2 ^ N" using \<open>0 < d\<close> by (simp add: pos_divide_less_eq mult.commute)
  have exit: "bisectionLoop residual maxT minT (Fin m) = Some (Fin m) \<and> \<bar>F m\<bar> \<le> 0.001"
    if "a \<le> m" "m \<le> b" "\<not> TOL < \<bar>residual (Fin m)\<bar>" for m maxT minT
    using that rep [of m] by (simp add: bisectionLoop_exit TOL_def)
  have key: "\<exists>t. bisectionLoop residual (Fin lo) (Fin hi) (Fin ((lo + hi) / 2)) = Some (Fin t)
                \<and> lo \<le> t \<and> t \<le> hi \<and> \<bar>F t\<bar> \<le> 0.001"
    if "a \<le> lo" "lo \<le> hi" "hi \<le> b" "0 \<le> F lo" "F hi \<le> 0" "hi - lo < d * 2 ^ n" for lo hi n
    using that
  proof (induction n arbitrary: lo hi)
    case 0
    define m where "m = (lo + hi) / 2"
    have m: "lo \<le> m" "m \<le> hi" using "0.prems"(2) by (simp_all add: m_def)
    have "\<bar>m - lo\<bar> < d" "\<bar>m - hi\<bar> < d" using m "0.prems"(6) by auto
    then have "\<bar>F m - F lo\<bar> < 0.001" "\<bar>F m - F hi\<bar> < 0.001"
      using d [of m lo] d [of m hi] m "0.prems"(1,2,3) by auto
    then have "\<bar>F m\<bar> \<le> 0.001" using "0.prems"(4,5) by linarith
    then have "\<not> TOL < \<bar>residual (Fin m)\<bar>"
      using rep [of m] m "0.prems"(1,3) by (simp add: TOL_def)
    with exit [of m "Fin lo" "Fin hi"] m "0.prems"(1,3) show ?case
      unfolding m_def [symmetric] by auto
  next
    case (Suc n)
    define m where "m = (lo + hi) / 2"
    have m: "lo \<le> m" "m \<le> hi" using Suc.prems(2) by (simp_all add: m_def)
    have r: "residual (Fin m) = Fin (F m)" using rep [of m] m Suc.prems(1,3) by simp
    have half: "hi - m < d * 2 ^ n" "m - lo < d * 2 ^ n"
      using Suc.prems(6) by (simp_all add: m_def field_simps)
    show ?case
    proof (cases "TOL < \<bar>residual (Fin m)\<bar>")
      case False
      with exit [of m "Fin lo" "Fin hi"] m Suc.prems(1,3) show ?thesis
        unfolding m_def [symmetric] by auto
    next
      case True
      show ?thesis
      proof (cases "0 < F m")
        case pos: True
        have "\<exists>t. bisectionLoop residual (Fin m) (Fin hi) (Fin ((m + hi) / 2)) = Some (Fin t)
                \<and> m \<le> t \<and> t \<le> hi \<and> \<bar>F t\<bar> \<le> 0.001"
          using Suc.IH [of m hi] m Suc.prems half pos by simp
        then obtain t where "bisectionLoop residual (Fin m) (Fin hi) (Fin ((m + hi) / 2)) = Some (Fin t)"
          and "m \<le> t" "t \<le> hi" "\<bar>F t\<bar> \<le> 0.001" by blast
        moreover have "bisectionLoop residual (Fin lo) (Fin hi) (Fin m)
            = bisectionLoop residual (Fin m) (Fin hi) (Fin ((m + hi) / 2))"
          using True pos r by (subst bisectionLoop.simps) (simp add: add.commute)
        ultimately show ?thesis
          unfolding m_def [symmetric] using m(1) by auto
      next
        case neg: False
        have "\<exists>t. bisectionLoop residual (Fin lo) (Fin m) (Fin ((lo + m) / 2)) = Some (Fin t)
                \<and> lo \<le> t \<and> t \<le> m \<and> \<bar>F t\<bar> \<le> 0.001"
          using Suc.IH [of lo m] m Suc.prems half neg by simp
        then obtain t where "bisectionLoop residual (Fin lo) (Fin m) (Fin ((lo + m) / 2)) = Some (Fin t)"
          and "lo \<le> t" "t \<le> m" "\<bar>F t\<bar> \<le> 0.001" by blast
        moreover have "bisectionLoop residual (Fin lo) (Fin hi) (Fin m)
            = bisectionLoop residual (Fin lo) (Fin m) (Fin ((lo + m) / 2))"
          using True neg r by (subst bisectionLoop.simps) simp
        ultimately show ?thesis
          unfolding m_def [symmetric] using m(2) by auto
      qed
    qed
  qed
  have "\<exists>t. bisectionLoop residual (Fin a) (Fin b) (Fin ((a + b) / 2)) = Some (Fin t)
                \<and> a \<le> t \<and> t \<le> b \<and> \<bar>F t\<bar> \<le> 0.001"
    using key [of a b N] assms N by simp
  then show ?thesis by simp
qed

lemma vaporPressure_antoine:
  assumes "A c = Fin a" "B c = Fin b" "C c = Fin cc"
    and "(t - 32) * 5 / 9 + 273.15 + cc \<noteq> 0"
  shows "vaporPressure (Fin t) c = Fin (antoine a b cc t)"
  unfolding antoine_def by (rule vaporPressure_Fin [OF assms])

lemma antoine_pos: "0 < antoine a b c t"
  by (simp add: antoine_def)

lemma antoine_isCont:
  assumes "(t - 32) * 5 / 9 + 273.15 + c \<noteq> 0"
  shows "isCont (antoine a b c) t"
  unfolding antoine_def [abs_def]
  using assms by (intro continuous_intros) simp_all

lemma antoine_mono:
  assumes "t1 \<le> t2" and "0 < (t1 - 32) * 5 / 9 + 273.15 + c" and "0 < b"
  shows "antoine a b c t1 \<le> antoine a b c t2"
proof -
  define d1 where "d1 = (t1 - 32) * 5 / 9 + 273.15 + c"
  define d2 where "d2 = (t2 - 32) * 5 / 9 + 273.15 + c"
  have d: "0 < d1" "d1 \<le> d2" using assms(1,2) by (simp_all add: d1_def d2_def)
  then have "b / d2 \<le> b / d1" using assms(3) by (simp add: frac_le)
  then have "a - b / d1 \<le> a - b / d2" by simp
  then have "(10::real) powr (a - b / d1) \<le> 10 powr (a - b / d2)" by (rule powr_mono) simp
  then show ?thesis unfolding antoine_def d1_def d2_def by simp
qed

lemma boilingPoint_Fin:
  assumes "A c = Fin a" "B c = Fin b" "C c = Fin cc"
    and "0 < p" and "a \<noteq> log 10 (p / 14.503773773)"
  shows "boilingPointTemperature (Fin p) c
           = Fin ((b / (a - log 10 (p / 14.503773773)) - cc - 273.15) * 9 / 5 + 32)"
  unfolding boilingPointTemperature_def Let_def assms(1-3)
  using assms(4,5) by (simp add: minus_jsnum_def)

lemma antoine_boilingPoint:
  assumes "0 < p" and "a \<noteq> log 10 (p / 14.503773773)" and "b \<noteq> 0"
    and "t = (b / (a - log 10 (p / 14.503773773)) - c - 273.15) * 9 / 5 + 32"
  shows "(t - 32) * 5 / 9 + 273.15 + c = b / (a - log 10 (p / 14.503773773))"
    and "antoine a b c t = p"
proof -
  define lg where "lg = log 10 (p / 14.503773773)"
  have nz: "a - lg \<noteq> 0" using assms(2) by (simp add: lg_def)
  have "((u - c - 273.15) * 9 / 5 + 32 - 32) * 5 / 9 + 273.15 + c = u" for u :: real
    by (simp add: field_simps)
  then show tk: "(t - 32) * 5 / 9 + 273.15 + c = b / (a - log 10 (p / 14.503773773))"
    unfolding assms(4) .
  have e: "a - b / (b / (a - lg)) = lg" using nz assms(3) by simp
  have pw: "10 powr lg = p / 14.503773773"
    unfolding lg_def using assms(1) by simp
  show "antoine a b c t = p"
    unfolding antoine_def tk lg_def [symmetric] e pw by simp
qed

lemma equilibriumTemperature_converges:
  assumes l: "A light = Fin al" "B light = Fin bl" "C light = Fin cl"
    and h: "A heavy = Fin ah" "B heavy = Fin bh" "C heavy = Fin ch"
    and p: "0 < p" and x: "0 \<le> x" "x \<le> 1"
    and bpos: "0 < bl" "0 < bh"
    and lim: "log 10 (p / 14.503773773) < al" "log 10 (p / 14.503773773) < ah"
    and bps: "boilingPointTemperature (Fin p) light = Fin a"
      "boilingPointTemperature (Fin p) heavy = Fin b"
    and ab: "a \<le> b"
    and dh: "0 < (a - 32) * 5 / 9 + 273.15 + ch"
  shows "\<exists>t. equilibriumTemperatureFromX (Fin p) (Fin x) light heavy = Some (Fin t)
           \<and> vaporPressure (Fin t) light = Fin (antoine al bl cl t)
           \<and> p \<le> antoine al bl cl t
           \<and> x * antoine al bl cl t \<le> p + 0.001"
    and "\<exists>t. equilibriumTemperatureFromY (Fin p) (Fin x) light heavy = Some (Fin t)
           \<and> vaporPressure (Fin t) light = Fin (antoine al bl cl t)
           \<and> p \<le> antoine al bl cl t"
proof -
  define lg where "lg = log 10 (p / 14.503773773)"
  have nel: "al \<noteq> log 10 (p / 14.503773773)" and neh: "ah \<noteq> log 10 (p / 14.503773773)"
    using lim by simp_all
  have a: "a = (bl / (al - log 10 (p / 14.503773773)) - cl - 273.15) * 9 / 5 + 32"
    using boilingPoint_Fin [OF l p nel] bps(1) by simp
  have b: "b = (bh / (ah - log 10 (p / 14.503773773)) - ch - 273.15) * 9 / 5 + 32"
    using boilingPoint_Fin [OF h p neh] bps(2) by simp
  have bl0: "bl \<noteq> 0" and bh0: "bh \<noteq> 0" using bpos by simp_all
  note la = antoine_boilingPoint [OF p nel bl0 a]
  note hb = antoine_boilingPoint [OF p neh bh0 b]
  have dl: "0 < (a - 32) * 5 / 9 + 273.15 + cl"
    unfolding la(1) using bpos(1) lim(1) by simp
  have step: "(a - 32) * 5 / 9 \<le> (t - 32) * 5 / 9" if "a \<le> t" for t
    using that by simp
  have dlt: "0 < (t - 32) * 5 / 9 + 273.15 + cl" if "a \<le> t" for t
    using step [OF that] dl by linarith
  have dht: "0 < (t - 32) * 5 / 9 + 273.15 + ch" if "a \<le> t" for t
    using step [OF that] dh by linarith
  have vl: "vaporPressure (Fin t) light = Fin (antoine al bl cl t)" if "a \<le> t" for t
    using dlt [OF that] by (intro vaporPressure_antoine [OF l]) simp
  have vh: "vaporPressure (Fin t) heavy = Fin (antoine ah bh ch t)" if "a \<le> t" for t
    using dht [OF that] by (intro vaporPressure_antoine [OF h]) simp
  have cl: "isCont (antoine al bl cl) t" and ch: "isCont (antoine ah bh ch) t" if "a \<le> t" for t
    using dlt [OF that] dht [OF that] by (simp_all add: antoine_isCont)
  have ha: "antoine ah bh ch a \<le> p"
    using antoine_mono [OF ab dh bpos(2), of ah] hb(2) by simp
  have lb: "p \<le> antoine al bl cl b"
    using antoine_mono [OF ab dl bpos(1), of al] la(2) by simp
  have lt: "p \<le> antoine al bl cl t" if "a \<le> t" for t
    using antoine_mono [OF that dl bpos(1), of al] la(2) by simp

  define FX where "FX = (\<lambda>t. p - (x * antoine al bl cl t + (1 - x) * antoine ah bh ch t))"
  have "\<exists>t. bisectionLoop (\<lambda>t. binaryequilibriumEquationFromX t (Fin p) (Fin x) light heavy)
           (Fin a) (Fin b) ((Fin a + Fin b) / Fin 2) = Some (Fin t) \<and> a \<le> t \<and> t \<le> b \<and> \<bar>FX t\<bar> \<le> 0.001"
  proof (rule bisectionLoop_converges [OF ab, of FX])
    show "isCont FX t" if "a \<le> t" "t \<le> b" for t
      unfolding FX_def using cl [OF that(1)] ch [OF that(1)] by (intro continuous_intros)
    show "binaryequilibriumEquationFromX (Fin t) (Fin p) (Fin x) light heavy = Fin (FX t)"
      if "a \<le> t" "t \<le> b" for t
      unfolding binaryequilibriumEquationFromX_def Let_def vl [OF that(1)] vh [OF that(1)]
      by (simp add: FX_def minus_jsnum_def)
    have "FX a = (1 - x) * (p - antoine ah bh ch a)"
      unfolding FX_def la(2) by (simp add: algebra_simps)
    then show "0 \<le> FX a" using ha x by simp
    have "FX b = x * (p - antoine al bl cl b)"
      unfolding FX_def hb(2) by (simp add: algebra_simps)
    then show "FX b \<le> 0" using lb x by (simp add: mult_nonneg_nonpos)
  qed
  then obtain t where tx: "equilibriumTemperatureFromX (Fin p) (Fin x) light heavy = Some (Fin t)"
    and t: "a \<le> t" "t \<le> b" and res: "\<bar>FX t\<bar> \<le> 0.001"
    unfolding equilibriumTemperatureFromX_def Let_def bps by blast
  have "0 \<le> (1 - x) * antoine ah bh ch t"
    using x antoine_pos [of ah bh ch t] by simp
  moreover have "x * antoine al bl cl t + (1 - x) * antoine ah bh ch t \<le> p + 0.001"
    using res unfolding FX_def by linarith
  ultimately have "x * antoine al bl cl t \<le> p + 0.001" by linarith
  with tx vl [OF t(1)] lt [OF t(1)]
  show "\<exists>t. equilibriumTemperatureFromX (Fin p) (Fin x) light heavy = Some (Fin t)
           \<and> vaporPressure (Fin t) light = Fin (antoine al bl cl t)
           \<and> p \<le> antoine al bl cl t
           \<and> x * antoine al bl cl t \<le> p + 0.001"
    by blast

  define FY where "FY = (\<lambda>t. x * p / antoine al bl cl t + (1 - x) * p / antoine ah bh ch t - 1)"
  have "\<exists>t. bisectionLoop (\<lambda>t. binaryequilibriumEquationFromY t (Fin p) (Fin x) light heavy)
           (Fin a) (Fin b) ((Fin a + Fin b) / Fin 2) = Some (Fin t) \<and> a \<le> t \<and> t \<le> b \<and> \<bar>FY t\<bar> \<le> 0.001"
  proof (rule bisectionLoop_converges [OF ab, of FY])
    show "isCont FY t" if "a \<le> t" "t \<le> b" for t
      unfolding FY_def using cl [OF that(1)] ch [OF that(1)] antoine_pos [of al bl cl t]
        antoine_pos [of ah bh ch t]
      by (intro continuous_intros) simp_all
    show "binaryequilibriumEquationFromY (Fin t) (Fin p) (Fin x) light heavy = Fin (FY t)"
      if "a \<le> t" "t \<le> b" for t
      unfolding binaryequilibriumEquationFromY_def Let_def vl [OF that(1)] vh [OF that(1)]
      using antoine_pos [of al bl cl t] antoine_pos [of ah bh ch t]
      by (simp add: FY_def minus_jsnum_def)
    have pa: "0 < antoine ah bh ch a" by (rule antoine_pos)
    have pp: "p / p = 1" using p by simp
    have "FY a = x * (p / p) + (1 - x) * p / antoine ah bh ch a - 1"
      unfolding FY_def la(2) by simp
    then have "FY a = (1 - x) * (p / antoine ah bh ch a - 1)"
      unfolding pp by (simp add: algebra_simps)
    moreover have "1 \<le> p / antoine ah bh ch a" using ha pa by simp
    ultimately show "0 \<le> FY a" using x by simp
    have pb: "0 < antoine al bl cl b" by (rule antoine_pos)
    have "FY b = x * p / antoine al bl cl b + (1 - x) * (p / p) - 1"
      unfolding FY_def hb(2) by simp
    then have "FY b = x * (p / antoine al bl cl b - 1)"
      unfolding pp by (simp add: algebra_simps)
    moreover have "p / antoine al bl cl b \<le> 1" using lb pb by simp
    ultimately show "FY b \<le> 0" using x by (simp add: mult_nonneg_nonpos)
  qed
  then obtain t where ty: "equilibriumTemperatureFromY (Fin p) (Fin x) light heavy = Some (Fin t)"
    and t: "a \<le> t" "t \<le> b"
    unfolding equilibriumTemperatureFromY_def Let_def bps by blast
  with vl [OF t(1)] lt [OF t(1)]
  show "\<exists>t. equilibriumTemperatureFromY (Fin p) (Fin x) light heavy = Some (Fin t)
           \<and> vaporPressure (Fin t) light = Fin (antoine al bl cl t)
           \<and> p \<le> antoine al bl cl t"
    by blast
qed

text \<open>
  C2 (as stated): \<open>equilibriumTemperatureFromX\<close> and \<open>equilibriumTemperatureFromY\<close>
  terminate for every pressure above zero and every mole fraction in \<open>[0, 1]\<close>. At the
  pressure \<open>10 ** A\<close> bar of propane's Antoine constant \<open>A\<close> the boiling point of propane
  is \<open>B / 0\<close>, the first guess is \<open>Infinity\<close>, the residual there for a liquid of pure
  butane is positive and above \<open>TOL\<close>, and the next guess is \<open>Infinity\<close> again: the loop,
  which has no iteration cap, never exits.
\<close>

theorem equilibriumTemperature_terminates_counterexample:
  "(0::real) < 10 powr 4.53678 * 14.503773773
   \<and> equilibriumTemperatureFromX (Fin (10 powr 4.53678 * 14.503773773)) (Fin 0)
       propaneConstants butaneConstants = None"
  using propane_limit_solve by simp

text \<open>
  C2 (amended): \<open>equilibriumTemperatureFromX\<close> and \<open>equilibriumTemperatureFromY\<close>
  terminate for every mole fraction in \<open>[0, 1]\<close> and every pressure above zero that gives a
  valid bracket: finite Antoine constants with \<open>B > 0\<close>, a pressure below \<open>10 ** A\<close> bar
  for both compounds, the boiling point of the light compound not above that of the heavy
  one, and the heavy compound's Antoine denominator \<open>T_K + C\<close> positive at the light
  compound's boiling point.
\<close>

theorem equilibriumTemperature_terminates:
  assumes l: "A light = Fin al" "B light = Fin bl" "C light = Fin cl"
    and h: "A heavy = Fin ah" "B heavy = Fin bh" "C heavy = Fin ch"
    and p: "0 < p" and x: "0 \<le> x" "x \<le> 1"
    and bpos: "0 < bl" "0 < bh"
    and lim: "log 10 (p / 14.503773773) < al" "log 10 (p / 14.503773773) < ah"
    and bps: "boilingPointTemperature (Fin p) light = Fin a"
      "boilingPointTemperature (Fin p) heavy = Fin b"
    and ab: "a \<le> b"
    and dh: "0 < (a - 32) * 5 / 9 + 273.15 + ch"
  shows "(\<exists>t. equilibriumTemperatureFromX (Fin p) (Fin x) light heavy = Some t)
       \<and> (\<exists>t. equilibriumTemperatureFromY (Fin p) (Fin x) light heavy = Some t)"
  using equilibriumTemperature_converges [OF assms] by blast

theorem equilibriumTemperature_terminates_witness:
  "(\<exists>t. equilibriumTemperatureFromX samplePressure (Fin 0.5) propaneConstants butaneConstants = Some t)
   \<and> (\<exists>t. equilibriumTemperatureFromY samplePressure (Fin 0.5) propaneConstants butaneConstants = Some t)"
proof -
  have l: "A propaneConstants = Fin 4.53678" "B propaneConstants = Fin 1149.36"
    "C propaneConstants = Fin 24.906"
    by (simp_all add: propaneConstants_def)
  have h: "A butaneConstants = Fin 4.35576" "B butaneConstants = Fin 1175.581"
    "C butaneConstants = Fin (- 2.071)"
    by (simp_all add: butaneConstants_def)
  have p: "(0::real) < 14.503773773" and x: "(0::real) \<le> 0.5" "(0.5::real) \<le> 1"
    and bpos: "(0::real) < 1149.36" "(0::real) < 1175.581"
    by simp_all
  have lim: "log 10 (14.503773773 / 14.503773773) < (4.53678::real)"
    "log 10 (14.503773773 / 14.503773773) < (4.35576::real)"
    by simp_all
  note bps = propane_butane_boilingPoints [unfolded samplePressure_def]
  have ab: "(1149.36 / 4.53678 - 24.906 - 273.15) * 9 / 5 + 32
      \<le> ((1175.581 / 4.35576 + 2.071 - 273.15) * 9 / 5 + 32 :: real)"
    using propane_butane_order by simp
  have dh: "(0::real) < ((1149.36 / 4.53678 - 24.906 - 273.15) * 9 / 5 + 32 - 32) * 5 / 9
      + 273.15 + (- 2.071)"
    by simp
  show ?thesis
    unfolding samplePressure_def
    by (rule equilibriumTemperature_terminates [OF l h p x bpos lim bps ab dh])
qed

subsection \<open>Returning the tray data\<close>

lemma liqMolFraction_range:
  assumes "0 < p"
    and solveY: "\<And>v. 0 \<le> v \<Longrightarrow> v \<le> 1 \<Longrightarrow>
      \<exists>t. equilibriumTemperatureFromY (Fin p) (Fin v) light heavy = Some (Fin t)
         \<and> vaporPressure (Fin t) light = Fin (P t) \<and> p \<le> P t"
    and "0 \<le> y" and "y \<le> 1"
  shows "\<exists>x. liqMolFraction (Fin p) (Fin y) light heavy = Some (Fin x) \<and> 0 \<le> x \<and> x \<le> 1"
proof -
  from solveY [OF assms(3,4)] obtain t where
    t: "equilibriumTemperatureFromY (Fin p) (Fin y) light heavy = Some (Fin t)"
    and v: "vaporPressure (Fin t) light = Fin (P t)" and ge: "p \<le> P t"
    by blast
  have pos: "0 < P t" using assms(1) ge by simp
  have "liqMolFraction (Fin p) (Fin y) light heavy = Some (Fin (y * p / P t))"
    unfolding liqMolFraction_def t using pos by (simp add: v)
  moreover have "0 \<le> y * p / P t" using assms(1,3) pos by simp
  moreover have "y * p / P t \<le> 1"
  proof -
    have "y * p \<le> 1 * P t" using assms(1,3,4) ge by (intro mult_mono) simp_all
    then show ?thesis using pos by (simp add: pos_divide_le_eq)
  qed
  ultimately show ?thesis by blast
qed

lemma vapMolFraction_range:
  assumes "0 < p"
    and solveX: "\<And>v. 0 \<le> v \<Longrightarrow> v \<le> 1 \<Longrightarrow>
      \<exists>t. equilibriumTemperatureFromX (Fin p) (Fin v) light heavy = Some (Fin t)
         \<and> vaporPressure (Fin t) light = Fin (P t) \<and> p \<le> P t \<and> v * P t \<le> p + 0.001"
    and "0 \<le> x" and "x \<le> 1"
  shows "\<exists>y. vapMolFraction (Fin p) (Fin x) light heavy = Some (Fin y) \<and> 0 \<le> y \<and> y * p \<le> p + 0.001"
proof -
  from solveX [OF assms(3,4)] obtain t where
    t: "equilibriumTemperatureFromX (Fin p) (Fin x) light heavy = Some (Fin t)"
    and v: "vaporPressure (Fin t) light = Fin (P t)" and ge: "p \<le> P t"
    and le: "x * P t \<le> p + 0.001"
    by blast
  have pos: "0 < P t" using assms(1) ge by simp
  have "vapMolFraction (Fin p) (Fin x) light heavy = Some (Fin (x * P t / p))"
    unfolding vapMolFraction_def t using assms(1) by (simp add: v)
  moreover have "0 \<le> x * P t / p" using assms(1,3) pos by simp
  moreover have "x * P t / p * p \<le> p + 0.001" using le assms(1) by simp
  ultimately show ?thesis by blast
qed

lemma rectifyingOperatingLine_range:
  assumes "0 \<le> r" and "0 \<le> d" "d \<le> 1" and "0 \<le> x" "x \<le> 1"
  shows "\<exists>y. rectifyingOperatingLine (Fin r) (Fin d) (Fin x) = Fin y \<and> 0 \<le> y \<and> y \<le> 1"
proof -
  have pos: "0 < r + 1" using assms(1) by simp
  have eq: "rectifyingOperatingLine (Fin r) (Fin d) (Fin x) = Fin (r / (r + 1) * x + d / (r + 1))"
    using pos by (simp add: rectifyingOperatingLine_def)
  have sum: "r / (r + 1) * x + d / (r + 1) = (r * x + d) / (r + 1)"
    by (simp add: add_divide_distrib)
  have "r * x \<le> r * 1" using assms(1,5) by (intro mult_left_mono) simp_all
  then have "r * x + d \<le> r + 1" using assms(3) by simp
  then have "(r * x + d) / (r + 1) \<le> 1" using pos by (simp add: pos_divide_le_eq)
  moreover have "0 \<le> (r * x + d) / (r + 1)" using assms pos by simp
  ultimately show ?thesis unfolding eq sum by blast
qed

lemma strippingOperatingLine_range:
  assumes "0 < s" and "s * 0.001 \<le> p * (1 - b)" and "0 < p" and "0 \<le> b"
    and "0 \<le> v" and "v * p \<le> p + 0.001"
  shows "\<exists>x. strippingOperatingLine (Fin s) (Fin b) (Fin v) = Fin x \<and> 0 \<le> x \<and> x \<le> 1"
proof -
  have pos: "0 < s + 1" using assms(1) by simp
  have nz: "s \<noteq> 0" "s + 1 \<noteq> 0" using assms(1) by simp_all
  have eq: "strippingOperatingLine (Fin s) (Fin b) (Fin v) = Fin ((v + b / s) * s / (s + 1))"
    using nz by (simp add: strippingOperatingLine_def)
  have sum: "(v + b / s) * s = v * s + b" using nz by (simp add: algebra_simps)
  have "(v * p) * s \<le> (p + 0.001) * s" using assms(1,6) by (intro mult_right_mono) simp_all
  then have "p * (v * s) \<le> p * s + s * 0.001" by (simp add: algebra_simps)
  also have "\<dots> \<le> p * s + p * (1 - b)" using assms(2) by simp
  also have "\<dots> = p * (s + 1 - b)" by (simp add: algebra_simps)
  finally have "v * s \<le> s + 1 - b" using assms(3) by simp
  then have "v * s + b \<le> s + 1" by simp
  then have "(v * s + b) / (s + 1) \<le> 1" using pos by (simp add: pos_divide_le_eq)
  moreover have "0 \<le> (v * s + b) / (s + 1)" using assms(1,4,5) pos by simp
  ultimately show ?thesis unfolding eq sum by blast
qed

lemma rectifyingTrays_returns:
  assumes "0 < p"
    and "\<And>v. 0 \<le> v \<Longrightarrow> v \<le> 1 \<Longrightarrow>
      \<exists>t. equilibriumTemperatureFromX (Fin p) (Fin v) light heavy = Some (Fin t)
         \<and> vaporPressure (Fin t) light = Fin (P t) \<and> p \<le> P t \<and> v * P t \<le> p + 0.001"
    and "\<And>v. 0 \<le> v \<Longrightarrow> v \<le> 1 \<Longrightarrow>
      \<exists>t. equilibriumTemperatureFromY (Fin p) (Fin v) light heavy = Some (Fin t)
         \<and> vaporPressure (Fin t) light = Fin (P t) \<and> p \<le> P t"
    and "0 \<le> r" and "0 \<le> d" "d \<le> 1"
    and "pressure = Fin p" and "rr = Fin r" and "xD = Fin d" and "liq = Fin x"
    and "0 \<le> x" "x \<le> 1"
  shows "\<exists>trays'. rectifyingTrays i rr xD pressure ft s light heavy trays liq = Some trays'"
  using assms
proof (induction i rr xD pressure ft s light heavy trays liq arbitrary: x
    rule: rectifyingTrays.induct)
  case (1 i rr xD pressure ft s light heavy trays liq)
  note p = "1.prems"(1) and solveX = "1.prems"(2) and solveY = "1.prems"(3)
    and r = "1.prems"(4) and d = "1.prems"(5,6) and eqs = "1.prems"(7,8,9)
    and liq = "1.prems"(10) and x = "1.prems"(11,12)
  show ?case
  proof (cases "i \<le> ft")
    case False
    then show ?thesis by (simp add: rectifyingTrays.simps [of i])
  next
    case True
    define vap where "vap = rectifyingOperatingLine rr xD liq"
    obtain y where y: "vap = Fin y" "0 \<le> y" "y \<le> 1"
      using rectifyingOperatingLine_range [OF r d x]
      unfolding vap_def eqs liq by blast
    obtain x' where x': "liqMolFraction pressure vap light heavy = Some (Fin x')" "0 \<le> x'" "x' \<le> 1"
      using liqMolFraction_range [where P = P, OF p solveY y(2,3)] unfolding y(1) eqs by blast
    obtain t where t: "equilibriumTemperatureFromX pressure (Fin x') light heavy = Some (Fin t)"
      using solveX [OF x'(2,3)] unfolding eqs by blast
    from "1.IH" [OF True vap_def x'(1) t p solveX solveY r d eqs refl x'(2,3)]
    show ?thesis
      using True x'(1) t
      by (simp add: rectifyingTrays.simps [of i] vap_def [symmetric])
  qed
qed

lemma strippingTrays_returns:
  assumes "0 < p"
    and "\<And>v. 0 \<le> v \<Longrightarrow> v \<le> 1 \<Longrightarrow>
      \<exists>t. equilibriumTemperatureFromX (Fin p) (Fin v) light heavy = Some (Fin t)
         \<and> vaporPressure (Fin t) light = Fin (P t) \<and> p \<le> P t \<and> v * P t \<le> p + 0.001"
    and "0 < b" and "b * 0.001 \<le> p * (1 - xb)" and "0 \<le> xb"
    and "pressure = Fin p" and "s = Fin b" and "xB = Fin xb" and "vap = Fin v"
    and "0 \<le> v" "v * p \<le> p + 0.001"
  shows "\<exists>trays'. strippingTrays i rr xB pressure ft s light heavy trays vap = Some trays'"
  using assms
proof (induction i rr xB pressure ft s light heavy trays vap arbitrary: v
    rule: strippingTrays.induct)
  case (1 i rr xB pressure ft s light heavy trays vap)
  note p = "1.prems"(1) and solveX = "1.prems"(2)
    and b = "1.prems"(3,4) and xb = "1.prems"(5) and eqs = "1.prems"(6,7,8)
    and vap = "1.prems"(9) and v = "1.prems"(10,11)
  show ?case
  proof (cases "ft < i")
    case False
    then show ?thesis by (simp add: strippingTrays.simps [of i])
  next
    case True
    define liq where "liq = strippingOperatingLine s xB vap"
    obtain x where x: "liq = Fin x" "0 \<le> x" "x \<le> 1"
      using strippingOperatingLine_range [OF b p xb v]
      unfolding liq_def eqs vap by blast
    obtain v' where v': "vapMolFraction pressure liq light heavy = Some (Fin v')"
      "0 \<le> v'" "v' * p \<le> p + 0.001"
      using vapMolFraction_range [where P = P, OF p solveX x(2,3)] unfolding x(1) eqs by blast
    obtain t where t: "equilibriumTemperatureFromX pressure liq light heavy = Some (Fin t)"
      using solveX [OF x(2,3)] unfolding eqs x(1) by blast
    from "1.IH" [OF True liq_def v'(1) t p solveX b xb eqs refl v'(2,3)]
    show ?thesis
      using True v'(1) t
      by (simp add: strippingTrays.simps [of i] liq_def [symmetric])
  qed
qed

lemma propane_limit_solveY:
  "equilibriumTemperatureFromY (Fin (10 powr 4.53678 * 14.503773773)) (Fin 0.5)
     propaneConstants butaneConstants = None"
proof -
  define p :: real where "p = 10 powr 4.53678 * 14.503773773"
  define q :: real where "q = 10 powr 4.35576 * 14.503773773"
  define y :: real where "y = 0.5"
  define res :: real where "res = y * p / p + (1 - y) * p / q - 1"
  have maxT: "boilingPointTemperature (Fin p) propaneConstants = PInf"
    by (simp add: boilingPointTemperature_def propaneConstants_def p_def minus_jsnum_def)
  obtain b where minT: "boilingPointTemperature (Fin p) butaneConstants = Fin b"
    by (simp add: boilingPointTemperature_def butaneConstants_def p_def minus_jsnum_def)
  have vl: "vaporPressure PInf propaneConstants = Fin p"
    by (simp add: vaporPressure_def propaneConstants_def p_def minus_jsnum_def)
  have vh: "vaporPressure PInf butaneConstants = Fin q"
    by (simp add: vaporPressure_def butaneConstants_def minus_jsnum_def q_def)
  have ppos: "0 < p" and qpos: "0 < q" by (simp_all add: p_def q_def)
  have r: "binaryequilibriumEquationFromY PInf (Fin p) (Fin y) propaneConstants butaneConstants
             = Fin res"
    unfolding binaryequilibriumEquationFromY_def Let_def vl vh res_def
    using ppos qpos by (simp add: minus_jsnum_def)
  have "(10::real) powr 4.53678 = 10 powr 4.35576 * 10 powr 0.18102"
    by (simp add: powr_add [symmetric])
  then have "p = q * 10 powr 0.18102" by (simp add: p_def q_def)
  then have "p / q = 10 powr 0.18102" using qpos by simp
  moreover have "1 + 0.18102 \<le> (10::real) powr 0.18102" by (rule powr_ten_ge) simp
  ultimately have ratio: "1.18 \<le> p / q" by simp
  have "res = 0.5 * (p / q) - 0.5" unfolding res_def y_def using ppos by simp
  with ratio have big: "0.001 < res" by simp
  have "equilibriumTemperatureFromY (Fin p) (Fin y) propaneConstants butaneConstants = None"
    unfolding equilibriumTemperatureFromY_def Let_def maxT minT
    using big by (intro bisectionLoop_stuck) (simp_all add: r TOL_def)
  then show ?thesis unfolding p_def y_def .
qed

lemma propane_limit_generateColumnData:
  "generateColumnData (Fin 1000) (Fin 0.3) (Fin 0.5) (Fin 0.1) (Fin (10 powr 4.53678 * 14.503773773))
     1 1 (Fin 1) propaneConstants butaneConstants = None"
proof -
  define P where "P = Fin (10 powr 4.53678 * 14.503773773)"
  define half where "half = Fin 0.5"
  have line: "rectifyingOperatingLine (Fin 1) half half = half"
    by (simp add: rectifyingOperatingLine_def half_def)
  have "liqMolFraction P half propaneConstants butaneConstants = None"
    unfolding liqMolFraction_def P_def half_def propane_limit_solveY by simp
  then have "rectifyingTrays 1 (Fin 1) half P 1 s propaneConstants butaneConstants trays half = None"
    for s trays
    by (subst rectifyingTrays.simps) (simp add: line)
  then have "generateColumnData (Fin 1000) (Fin 0.3) half (Fin 0.1) P 1 1 (Fin 1)
      propaneConstants butaneConstants = None"
    unfolding generateColumnData_def Let_def
    by (simp add: newArray_def split: prod.splits)
  then show ?thesis unfolding P_def half_def .
qed

lemma generateColumnData_trayNumbers:
  assumes "1 \<le> feedTray" and "feedTray \<le> totalTrays" and "totalTrays + 1 < 2 ^ 32"
    and res: "generateColumnData feedRate xFeed xDistillate xBottoms pressure feedTray totalTrays r light heavy
                 = Some res"
  shows "\<exists>trays. res = Inr trays \<and> length trays = nat (totalTrays + 1)
                \<and> (\<forall>i. 1 \<le> i \<and> i \<le> totalTrays + 1 \<longrightarrow>
                      (\<exists>t. trays ! nat (i - 1) = Some t \<and> trayNumber t = i))"
proof -
  obtain dr br where pr: "productRates feedRate xFeed xDistillate xBottoms = (dr, br)"
    by (cases "productRates feedRate xFeed xDistillate xBottoms")
  define s where "s = boilUpRatio r dr br"
  define init :: "tray option list" where "init = replicate (nat (totalTrays + 1)) None"
  have na: "newArray (totalTrays + 1) = Inr init"
    using assms by (simp add: newArray_def init_def)
  from res obtain mid trays where
    rt: "rectifyingTrays 1 r xDistillate pressure feedTray s light heavy init xDistillate = Some mid"
    and st: "strippingTrays (totalTrays + 1) r xBottoms pressure feedTray s light heavy mid xBottoms = Some trays"
    and r: "res = Inr trays"
    unfolding generateColumnData_def pr Let_def na
    by (auto simp add: s_def split: option.splits)
  have li: "length init = nat (totalTrays + 1)" by (simp add: init_def)
  have R: "length mid = length init"
    "\<And>j. 1 \<le> j \<Longrightarrow> j \<le> feedTray \<Longrightarrow> \<exists>t. mid ! nat (j - 1) = Some t \<and> trayNumber t = j"
    using rectifyingTrays_shape [OF rt] assms(1-3) li by auto
  have S: "length trays = length mid"
    "\<And>j. feedTray < j \<Longrightarrow> j \<le> totalTrays + 1 \<Longrightarrow> \<exists>t. trays ! nat (j - 1) = Some t \<and> trayNumber t = j"
    "\<And>k. k < length mid \<Longrightarrow> k < nat feedTray \<Longrightarrow> trays ! k = mid ! k"
    using strippingTrays_shape [OF st] assms(1-3) li R(1) by auto
  have "\<exists>t. trays ! nat (i - 1) = Some t \<and> trayNumber t = i" if "1 \<le> i" "i \<le> totalTrays + 1" for i
  proof (cases "i \<le> feedTray")
    case True
    have "nat (i - 1) < length mid" "nat (i - 1) < nat feedTray"
      using that True assms(1-3) R(1) li by auto
    then have "trays ! nat (i - 1) = mid ! nat (i - 1)" by (rule S(3))
    with R(2) [OF that(1) True] show ?thesis by simp
  next
    case False
    then show ?thesis using S(2) that by simp
  qed
  then show ?thesis
    using r S(1) R(1) li by auto
qed

lemma generateColumnData_returns:
  assumes l: "A light = Fin al" "B light = Fin bl" "C light = Fin cl"
    and h: "A heavy = Fin ah" "B heavy = Fin bh" "C heavy = Fin ch"
    and p: "0 < p"
    and bpos: "0 < bl" "0 < bh"
    and lim: "log 10 (p / 14.503773773) < al" "log 10 (p / 14.503773773) < ah"
    and bps: "boilingPointTemperature (Fin p) light = Fin a"
      "boilingPointTemperature (Fin p) heavy = Fin b"
    and ab: "a \<le> b"
    and dh: "0 < (a - 32) * 5 / 9 + 273.15 + ch"
    and F: "0 < F" and x: "0 \<le> xB" "xB < xF" "xF < xD" "xD \<le> 1"
    and R: "0 \<le> R"
    and S: "boilUpRatio (Fin R) (fst (productRates (Fin F) (Fin xF) (Fin xD) (Fin xB)))
              (snd (productRates (Fin F) (Fin xF) (Fin xD) (Fin xB))) * TOL
            \<le> Fin p * (Fin 1 - Fin xB)"
  shows "generateColumnData (Fin F) (Fin xF) (Fin xD) (Fin xB) (Fin p) feedTray totalTrays (Fin R)
           light heavy \<noteq> None"
proof -
  define q where "q = (xF - xB) / (xD - xB)"
  define D where "D = F * q"
  define Bt where "Bt = F - D"
  have "productRates (Fin F) (Fin xF) (Fin xD) (Fin xB)
      = (Fin (F * (xF - xB) / (xD - xB)), Fin (F - F * (xF - xB) / (xD - xB)))"
    using x by (intro productRates_Fin) simp
  moreover have "F * (xF - xB) / (xD - xB) = D" by (simp add: D_def q_def)
  ultimately have pr: "productRates (Fin F) (Fin xF) (Fin xD) (Fin xB) = (Fin D, Fin Bt)"
    by (simp add: Bt_def)
  have frac: "0 < q" "q < 1"
    using x by (simp_all add: q_def)
  have D: "0 < D" unfolding D_def using F frac(1) by simp
  have "F * q < F * 1"
    using F frac(2) by (intro mult_strict_left_mono)
  then have Bt: "0 < Bt" unfolding Bt_def D_def by simp
  define s where "s = (R + 1) * D / Bt"
  have s: "0 < s" unfolding s_def using R D Bt by simp
  have bu: "boilUpRatio (Fin R) (Fin D) (Fin Bt) = Fin s"
    unfolding boilUpRatio_def s_def using Bt by simp
  have "Fin (s * 0.001) \<le> Fin (p * (1 - xB))"
    using S unfolding pr fst_conv snd_conv bu
    by (simp add: TOL_def minus_jsnum_def)
  then have cap: "s * 0.001 \<le> p * (1 - xB)"
    unfolding less_eq_jsnum_def by auto
  have xD: "0 \<le> xD" using x by simp
  have xB1: "xB \<le> 1" using x by simp
  note conv = equilibriumTemperature_converges [OF l h p _ _ bpos lim bps ab dh]
  have solveX: "\<exists>t. equilibriumTemperatureFromX (Fin p) (Fin v) light heavy = Some (Fin t)
         \<and> vaporPressure (Fin t) light = Fin (antoine al bl cl t) \<and> p \<le> antoine al bl cl t
         \<and> v * antoine al bl cl t \<le> p + 0.001" if "0 \<le> v" "v \<le> 1" for v
    using conv(1) [OF that] .
  have solveY: "\<exists>t. equilibriumTemperatureFromY (Fin p) (Fin v) light heavy = Some (Fin t)
         \<and> vaporPressure (Fin t) light = Fin (antoine al bl cl t) \<and> p \<le> antoine al bl cl t"
    if "0 \<le> v" "v \<le> 1" for v
    using conv(2) [OF that] .
  show ?thesis
  proof (cases "newArray (totalTrays + 1)")
    case (Inl e)
    then show ?thesis unfolding generateColumnData_def pr Let_def by simp
  next
    case (Inr init)
    obtain mid where mid: "rectifyingTrays 1 (Fin R) (Fin xD) (Fin p) feedTray (Fin s)
        light heavy init (Fin xD) = Some mid"
      using rectifyingTrays_returns [where P = "antoine al bl cl", OF p solveX solveY R xD x(4)
          refl refl refl refl xD x(4)]
      by blast
    have "xB * p \<le> 1 * p" using xB1 p by (intro mult_right_mono) simp_all
    then have "xB * p \<le> p + 0.001" by simp
    from strippingTrays_returns [where P = "antoine al bl cl", OF p solveX s cap x(1)
        refl refl refl refl x(1) this]
    obtain trays where "strippingTrays (totalTrays + 1) (Fin R) (Fin xB) (Fin p) feedTray (Fin s)
        light heavy mid (Fin xB) = Some trays"
      by blast
    then show ?thesis unfolding generateColumnData_def pr Let_def by (simp add: Inr mid bu)
  qed
qed

text \<open>
  C8 (as stated): for every \<open>feedTray\<close> and \<open>totalTrays\<close> with
  \<open>1 \<le> feedTray \<le> totalTrays\<close>, \<open>generateColumnData\<close> returns an array of
  \<open>totalTrays + 1\<close> trays. With \<open>totalTrays = 2^32 - 1\<close> the array cannot be created:
  \<open>new Array(totalTrays + 1)\<close> throws a \<open>RangeError\<close>. And with one tray, at the pressure
  \<open>10 ** A\<close> bar of propane's Antoine constant \<open>A\<close>, the equilibrium solve for the first
  tray's liquid never leaves its loop, so that \<open>generateColumnData\<close> does not return.
\<close>

theorem generateColumnData_shape_counterexample:
  "generateColumnData (Fin 1000) (Fin 0.5) (Fin 0.95) (Fin 0.05) (Fin 114.7) 1 4294967295 (Fin 2)
     propaneConstants butaneConstants = Some (Inl RangeError)
   \<and> generateColumnData (Fin 1000) (Fin 0.3) (Fin 0.5) (Fin 0.1) (Fin (10 powr 4.53678 * 14.503773773))
       1 1 (Fin 1) propaneConstants butaneConstants = None"
proof
  show "generateColumnData (Fin 1000) (Fin 0.5) (Fin 0.95) (Fin 0.05) (Fin 114.7) 1 4294967295 (Fin 2)
     propaneConstants butaneConstants = Some (Inl RangeError)"
    by (simp add: generateColumnData_def newArray_def split: prod.splits)
  show "generateColumnData (Fin 1000) (Fin 0.3) (Fin 0.5) (Fin 0.1) (Fin (10 powr 4.53678 * 14.503773773))
       1 1 (Fin 1) propaneConstants butaneConstants = None"
    by (rule propane_limit_generateColumnData)
qed

text \<open>
  C8 (amended): for \<open>1 \<le> feedTray \<le> totalTrays\<close> and \<open>totalTrays + 1 < 2^32\<close>,
  whatever \<open>generateColumnData\<close> returns is an array of exactly \<open>totalTrays + 1\<close> slots in
  which, for every \<open>i\<close> from 1 to \<open>totalTrays + 1\<close>, the slot at index \<open>i - 1\<close> holds a
  tray with \<open>trayNumber\<close> equal to \<open>i\<close>. And it does return such an array for a
  positive feed rate, compositions \<open>0 \<le> x_B < x_F < x_D \<le> 1\<close>, a reflux ratio
  \<open>R \<ge> 0\<close> whose boil-up ratio \<open>S\<close> satisfies \<open>S * TOL \<le> pressure * (1 - x_B)\<close>, and a
  pressure above zero that gives a valid bracket for the equilibrium solves: finite
  Antoine constants with \<open>B > 0\<close>, a pressure below \<open>10 ** A\<close> bar for both compounds,
  the boiling point of the light compound not above that of the heavy one, and the heavy
  compound's Antoine denominator \<open>T_K + C\<close> positive at the light compound's boiling
  point.
\<close>

theorem generateColumnData_shape:
  assumes "1 \<le> feedTray" and "feedTray \<le> totalTrays" and "totalTrays + 1 < 2 ^ 32"
  shows "(\<forall>res. generateColumnData feedRate xFeed xDistillate xBottoms pressure feedTray totalTrays r light heavy
                 = Some res \<longrightarrow>
            (\<exists>trays. res = Inr trays \<and> length trays = nat (totalTrays + 1)
                \<and> (\<forall>i. 1 \<le> i \<and> i \<le> totalTrays + 1 \<longrightarrow>
                      (\<exists>t. trays ! nat (i - 1) = Some t \<and> trayNumber t = i))))
         \<and> (feedRate = Fin F \<and> 0 < F
              \<and> xFeed = Fin xF \<and> xDistillate = Fin xD \<and> xBottoms = Fin xB
              \<and> 0 \<le> xB \<and> xB < xF \<and> xF < xD \<and> xD \<le> 1
              \<and> r = Fin R \<and> 0 \<le> R
              \<and> boilUpRatio r (fst (productRates feedRate xFeed xDistillate xBottoms))
                   (snd (productRates feedRate xFeed xDistillate xBottoms)) * TOL
                 \<le> pressure * (Fin 1 - xBottoms)
              \<and> pressure = Fin p \<and> 0 < p
              \<and> A light = Fin al \<and> B light = Fin bl \<and> C light = Fin cl
              \<and> A heavy = Fin ah \<and> B heavy = Fin bh \<and> C heavy = Fin ch
              \<and> 0 < bl \<and> 0 < bh
              \<and> log 10 (p / 14.503773773) < al \<and> log 10 (p / 14.503773773) < ah
              \<and> boilingPointTemperature pressure light = Fin a
              \<and> boilingPointTemperature pressure heavy = Fin b
              \<and> a \<le> b \<and> 0 < (a - 32) * 5 / 9 + 273.15 + ch
            \<longrightarrow> (\<exists>trays. generateColumnData feedRate xFeed xDistillate xBottoms pressure feedTray
                             totalTrays r light heavy = Some (Inr trays)
                     \<and> length trays = nat (totalTrays + 1)
                     \<and> (\<forall>i. 1 \<le> i \<and> i \<le> totalTrays + 1 \<longrightarrow>
                           (\<exists>t. trays ! nat (i - 1) = Some t \<and> trayNumber t = i))))"
proof (intro conjI allI impI)
  fix res
  assume "generateColumnData feedRate xFeed xDistillate xBottoms pressure feedTray totalTrays r light heavy
                 = Some res"
  from generateColumnData_trayNumbers [OF assms this]
  show "\<exists>trays. res = Inr trays \<and> length trays = nat (totalTrays + 1)
                \<and> (\<forall>i. 1 \<le> i \<and> i \<le> totalTrays + 1 \<longrightarrow>
                      (\<exists>t. trays ! nat (i - 1) = Some t \<and> trayNumber t = i))" .
next
  assume H: "feedRate = Fin F \<and> 0 < F
              \<and> xFeed = Fin xF \<and> xDistillate = Fin xD \<and> xBottoms = Fin xB
              \<and> 0 \<le> xB \<and> xB < xF \<and> xF < xD \<and> xD \<le> 1
              \<and> r = Fin R \<and> 0 \<le> R
              \<and> boilUpRatio r (fst (productRates feedRate xFeed xDistillate xBottoms))
                   (snd (productRates feedRate xFeed xDistillate xBottoms)) * TOL
                 \<le> pressure * (Fin 1 - xBottoms)
              \<and> pressure = Fin p \<and> 0 < p
              \<and> A light = Fin al \<and> B light = Fin bl \<and> C light = Fin cl
              \<and> A heavy = Fin ah \<and> B heavy = Fin bh \<and> C heavy = Fin ch
              \<and> 0 < bl \<and> 0 < bh
              \<and> log 10 (p / 14.503773773) < al \<and> log 10 (p / 14.503773773) < ah
              \<and> boilingPointTemperature pressure light = Fin a
              \<and> boilingPointTemperature pressure heavy = Fin b
              \<and> a \<le> b \<and> 0 < (a - 32) * 5 / 9 + 273.15 + ch"
  then have eqs: "feedRate = Fin F" "xFeed = Fin xF" "xDistillate = Fin xD" "xBottoms = Fin xB"
    "r = Fin R" "pressure = Fin p"
    by blast+
  from H have "generateColumnData (Fin F) (Fin xF) (Fin xD) (Fin xB) (Fin p) feedTray totalTrays (Fin R)
           light heavy \<noteq> None"
    unfolding eqs by (intro generateColumnData_returns [of light al bl cl heavy ah bh ch p a b]) blast+
  then obtain res where res: "generateColumnData feedRate xFeed xDistillate xBottoms pressure feedTray
      totalTrays r light heavy = Some res"
    unfolding eqs by blast
  from generateColumnData_trayNumbers [OF assms this] res
  show "\<exists>trays. generateColumnData feedRate xFeed xDistillate xBottoms pressure feedTray
                             totalTrays r light heavy = Some (Inr trays)
                     \<and> length trays = nat (totalTrays + 1)
                     \<and> (\<forall>i. 1 \<le> i \<and> i \<le> totalTrays + 1 \<longrightarrow>
                           (\<exists>t. trays ! nat (i - 1) = Some t \<and> trayNumber t = i))"
    by blast
qed

theorem generateColumnData_shape_witness:
  "boilUpRatio (Fin 2) (fst (productRates (Fin 1000) (Fin 0.5) (Fin 0.95) (Fin 0.05)))
       (snd (productRates (Fin 1000) (Fin 0.5) (Fin 0.95) (Fin 0.05))) * TOL
     \<le> samplePressure * (Fin 1 - Fin 0.05)
   \<and> (\<exists>trays. generateColumnData (Fin 1000) (Fin 0.5) (Fin 0.95) (Fin 0.05) samplePressure 2 3 (Fin 2)
         propaneConstants butaneConstants = Some (Inr trays)
       \<and> length trays = 4
       \<and> (\<exists>t. trays ! 0 = Some t \<and> trayNumber t = 1)
       \<and> (\<exists>t. trays ! 1 = Some t \<and> trayNumber t = 2)
       \<and> (\<exists>t. trays ! 2 = Some t \<and> trayNumber t = 3)
       \<and> (\<exists>t. trays ! 3 = Some t \<and> trayNumber t = 4))"
proof -
  have pre: "(1::int) \<le> 2" "(2::int) \<le> 3" "(3::int) + 1 < 2 ^ 32" by simp_all
  have boil: "boilUpRatio (Fin 2) (fst (productRates (Fin 1000) (Fin 0.5) (Fin 0.95) (Fin 0.05)))
       (snd (productRates (Fin 1000) (Fin 0.5) (Fin 0.95) (Fin 0.05))) * TOL
     \<le> samplePressure * (Fin 1 - Fin 0.05)"
    by (simp add: productRates_def boilUpRatio_def TOL_def samplePressure_def minus_jsnum_def Let_def
          less_eq_jsnum_def)
  have l: "A propaneConstants = Fin 4.53678" "B propaneConstants = Fin 1149.36"
    "C propaneConstants = Fin 24.906"
    by (simp_all add: propaneConstants_def)
  have h: "A butaneConstants = Fin 4.35576" "B butaneConstants = Fin 1175.581"
    "C butaneConstants = Fin (- 2.071)"
    by (simp_all add: butaneConstants_def)
  have nums: "(0::real) < 1000" "(0::real) \<le> 0.05" "(0.05::real) < 0.5" "(0.5::real) < 0.95"
    "(0.95::real) \<le> 1" "(0::real) \<le> 2" "(0::real) < 14.503773773"
    "(0::real) < 1149.36" "(0::real) < 1175.581"
    by simp_all
  have lim: "log 10 (14.503773773 / 14.503773773) < (4.53678::real)"
    "log 10 (14.503773773 / 14.503773773) < (4.35576::real)"
    by simp_all
  have sp: "samplePressure = Fin 14.503773773" by (simp add: samplePressure_def)
  note bps = propane_butane_boilingPoints
  have ab: "(1149.36 / 4.53678 - 24.906 - 273.15) * 9 / 5 + 32
      \<le> ((1175.581 / 4.35576 + 2.071 - 273.15) * 9 / 5 + 32 :: real)"
    using propane_butane_order by simp
  have dh: "(0::real) < ((1149.36 / 4.53678 - 24.906 - 273.15) * 9 / 5 + 32 - 32) * 5 / 9
      + 273.15 + (- 2.071)"
    by simp
  note shape = generateColumnData_shape [OF pre, THEN conjunct2, rule_format,
      where feedRate = "Fin 1000" and xFeed = "Fin 0.5" and xDistillate = "Fin 0.95"
        and xBottoms = "Fin 0.05" and pressure = samplePressure and r = "Fin 2"
        and light = propaneConstants and heavy = butaneConstants
        and F = 1000 and xF = "0.5" and xD = "0.95" and xB = "0.05" and R = 2 and p = "14.503773773"
        and al = "4.53678" and bl = "1149.36" and cl = "24.906"
        and ah = "4.35576" and bh = "1175.581" and ch = "- 2.071"
        and a = "(1149.36 / 4.53678 - 24.906 - 273.15) * 9 / 5 + 32"
        and b = "(1175.581 / 4.35576 + 2.071 - 273.15) * 9 / 5 + 32"]
  have "\<exists>trays. generateColumnData (Fin 1000) (Fin 0.5) (Fin 0.95) (Fin 0.05) samplePressure 2 3 (Fin 2)
         propaneConstants butaneConstants = Some (Inr trays)
       \<and> length trays = nat (3 + 1)
       \<and> (\<forall>i. 1 \<le> i \<and> i \<le> 3 + 1 \<longrightarrow> (\<exists>t. trays ! nat (i - 1) = Some t \<and> trayNumber t = i))"
    by (rule shape) (intro conjI refl boil l h nums lim sp bps ab dh)
  then obtain trays where gen: "generateColumnData (Fin 1000) (Fin 0.5) (Fin 0.95) (Fin 0.05) samplePressure
        2 3 (Fin 2) propaneConstants butaneConstants = Some (Inr trays)"
    and len: "length trays = nat (3 + 1)"
    and all: "\<forall>i. 1 \<le> i \<and> i \<le> 3 + 1 \<longrightarrow> (\<exists>t. trays ! nat (i - 1) = Some t \<and> trayNumber t = i)"
    by blast
  have "\<exists>t. trays ! nat (1 - 1) = Some t \<and> trayNumber t = 1"
    "\<exists>t. trays ! nat (2 - 1) = Some t \<and> trayNumber t = 2"
    "\<exists>t. trays ! nat (3 - 1) = Some t \<and> trayNumber t = 3"
    "\<exists>t. trays ! nat (4 - 1) = Some t \<and> trayNumber t = 4"
    using all [rule_format, of 1] all [rule_format, of 2] all [rule_format, of 3]
      all [rule_format, of 4] by simp_all
  then have "(\<exists>t. trays ! 0 = Some t \<and> trayNumber t = 1)
       \<and> (\<exists>t. trays ! 1 = Some t \<and> trayNumber t = 2)
       \<and> (\<exists>t. trays ! 2 = Some t \<and> trayNumber t = 3)
       \<and> (\<exists>t. trays ! 3 = Some t \<and> trayNumber t = 4)"
    by (simp add: numeral_2_eq_2 numeral_3_eq_3)
  with gen len boil show ?thesis by auto
qed

end
